theory Spec2Isabelle
  imports Complex_Main "HOL-Library.Char_ord" "HOL-Library.List_Lexorder"
    "HOL-Library.Product_Lexorder" "HOL-Library.Multiset"
begin

section \<open>Tables\<close>

text \<open>
  The program of \<^verbatim>\<open>landing_page_report_v2.py\<close> works on pandas data frames. A cell
  is a missing value, a number or a string; the float64 numbers of pandas are idealised
  as rationals. A row is an association list from column labels to cells; a frame has its
  column labels, pairwise distinct as \<^verbatim>\<open>read_csv\<close> makes them, and its rows, each row
  paired with its index label.

  The operations of pandas are modelled as pandas documents them. Its sorts are taken as
  stable. \<^verbatim>\<open>load_data\<close>, which reads the two files, and the \<^verbatim>\<open>print\<close> at the end of
  \<^verbatim>\<open>generate_markdown\<close> are left out.
\<close>

datatype cell = NaN | Num rat | Str string

datatype error = KeyError | TypeError | ValueError | MergeError | ZeroDivisionError

type_synonym row = "(string \<times> cell) list"

record frame =
  cols :: "string list"
  rws :: "(nat \<times> row) list"

definition cell_at :: "row \<Rightarrow> string \<Rightarrow> cell" where
  "cell_at r c = (case map_of r c of Some v \<Rightarrow> v | None \<Rightarrow> NaN)"

definition column :: "frame \<Rightarrow> string \<Rightarrow> cell list" where
  "column d c = map (\<lambda>lr. cell_at (snd lr) c) (rws d)"

definition is_str :: "cell \<Rightarrow> bool" where
  "is_str v = (case v of Str _ \<Rightarrow> True | _ \<Rightarrow> False)"

text \<open>
  Sorting keys. Where pandas has to order the values of a column it puts numbers before
  strings and missing values last; strings compare by code point.
\<close>

definition cell_key :: "cell \<Rightarrow> nat \<times> rat \<times> string" where
  "cell_key v = (case v of Num q \<Rightarrow> (0, q, []) | Str s \<Rightarrow> (1, 0, s) | NaN \<Rightarrow> (2, 0, []))"

definition key_of :: "string list \<Rightarrow> row \<Rightarrow> cell list" where
  "key_of ks r = map (cell_at r) ks"

text \<open>\<^verbatim>\<open>reset_index(drop=True)\<close>: the rows get the labels 0, 1, 2, ...\<close>

definition relabel :: "row list \<Rightarrow> (nat \<times> row) list" where
  "relabel rs = zip [0 ..< length rs] rs"

subsection \<open>Decimal numerals\<close>

fun str_nat :: "nat \<Rightarrow> string" where
  "str_nat n = (if n < 10 then [''0123456789'' ! n]
                else str_nat (n div 10) @ [''0123456789'' ! (n mod 10)])"

declare str_nat.simps [simp del]

section \<open>The fixed program enumeration\<close>

definition PROGRAM_ORDER :: "string list" where
  "PROGRAM_ORDER =
    [''Informatics'', ''CyberOps'', ''CyberEng'', ''MED'', ''LEPSL'', ''Data Science'',
     ''MSAAI'', ''MSLDT'', ''MTS'', ''MESH'', ''MSHA'', ''MSNP'', ''EML'', ''MSITL'',
     ''MSNNL'']"

definition PROGRAM_NAMES :: "(string \<times> string) list" where
  "PROGRAM_NAMES =
    [(''Informatics'', ''Health Care Informatics''),
     (''CyberOps'', ''Cyber Security Operations and Leadership''),
     (''CyberEng'', ''Cyber Security Engineering''),
     (''MED'', ''Education''),
     (''LEPSL'', ''Law Enforcement and Public Safety Leadership''),
     (''Data Science'', ''Applied Data Science''),
     (''MSAAI'', ''Applied Artificial Intelligence''),
     (''MSLDT'', ''Learning Design and Technology''),
     (''MTS'', ''Theological Studies''),
     (''MESH'', ''Engineering for Sustainability & Health''),
     (''MSHA'', ''Humanitarian Action''),
     (''MSNP'', ''Nonprofit Leadership & Management''),
     (''EML'', ''Engineering Management and Leadership''),
     (''MSITL'', ''Information Technology Leadership''),
     (''MSNNL'', ''MSN Nursing Leadership'')]"

section \<open>Channel filter\<close>

text \<open>\<^verbatim>\<open>data[data['default_channel'].isin(channels)].copy()\<close>\<close>

definition filter_channels :: "frame \<Rightarrow> string list \<Rightarrow> error + frame" where
  "filter_channels data channels =
     (if ''default_channel'' \<notin> set (cols data) then Inl KeyError
      else Inr (data\<lparr>rws := filter (\<lambda>lr. cell_at (snd lr) ''default_channel'' \<in> Str ` set channels)
                                 (rws data)\<rparr>))"

section \<open>Top-N ranker\<close>

text \<open>
  \<^verbatim>\<open>x.nlargest(top_n, metric)\<close> on one group: nothing for \<open>top_n \<le> 0\<close>; otherwise the
  first \<open>top_n\<close> rows of the group in descending order of the metric, rows with a missing
  metric after all others, rows with equal metric in their original order.
\<close>

definition metric_key :: "string \<Rightarrow> nat \<times> row \<Rightarrow> nat \<times> rat" where
  "metric_key metric lr = (case cell_at (snd lr) metric of Num q \<Rightarrow> (0, - q) | _ \<Rightarrow> (1, 0))"

definition nlargest :: "int \<Rightarrow> string \<Rightarrow> (nat \<times> row) list \<Rightarrow> (nat \<times> row) list" where
  "nlargest n metric g =
     (if n \<le> 0 then [] else take (nat n) (sort_key (metric_key metric) g))"

text \<open>
  \<^verbatim>\<open>data.groupby(group_cols)\<close>: rows with a missing value in a grouping column belong
  to no group; the groups come in ascending order of their keys, each with its rows in
  their original order.
\<close>

definition group_keys :: "string list \<Rightarrow> (nat \<times> row) list \<Rightarrow> cell list list" where
  "group_keys gs rs =
     sort_key (map cell_key)
       (remdups (filter (\<lambda>k. NaN \<notin> set k) (map (\<lambda>lr. key_of gs (snd lr)) rs)))"

definition group_rows :: "string list \<Rightarrow> cell list \<Rightarrow> (nat \<times> row) list \<Rightarrow> (nat \<times> row) list" where
  "group_rows gs k rs = filter (\<lambda>lr. key_of gs (snd lr) = k) rs"

text \<open>
  \<^verbatim>\<open>.apply(lambda x: x.nlargest(top_n, metric), include_groups=False).reset_index()\<close>:
  the function sees each group without its grouping columns; the result is indexed by the
  group key and the original label, and \<^verbatim>\<open>reset_index\<close> turns these index levels into
  the leading columns, the unnamed label level under the name \<^verbatim>\<open>level_k\<close> for \<open>k\<close>
  grouping columns.
\<close>

definition level_name :: "nat \<Rightarrow> string" where
  "level_name k = ''level_'' @ str_nat k"

definition ranked_row :: "string list \<Rightarrow> string list \<Rightarrow> nat \<times> row \<Rightarrow> row" where
  "ranked_row gs rest lr =
     map (\<lambda>c. (c, cell_at (snd lr) c)) gs
     @ [(level_name (length gs), Num (of_nat (fst lr)))]
     @ map (\<lambda>c. (c, cell_at (snd lr) c)) rest"

definition drop_column :: "string \<Rightarrow> frame \<Rightarrow> frame" where
  "drop_column c d =
     \<lparr>cols = filter (\<lambda>x. x \<noteq> c) (cols d),
      rws = map (\<lambda>lr. (fst lr, filter (\<lambda>p. fst p \<noteq> c) (snd lr))) (rws d)\<rparr>"

text \<open>The result of \<^verbatim>\<open>groupby(...).apply(...).reset_index()\<close> (lines 58 to 60).\<close>

definition top_per_group :: "frame \<Rightarrow> string list \<Rightarrow> string \<Rightarrow> int \<Rightarrow> frame" where
  "top_per_group data group_cols metric top_n =
     (let rest = filter (\<lambda>c. c \<notin> set group_cols) (cols data);
          picked = concat (map (\<lambda>k. nlargest top_n metric (group_rows group_cols k (rws data)))
                               (group_keys group_cols (rws data)))
      in \<lparr>cols = group_cols @ [level_name (length group_cols)] @ rest,
          rws = relabel (map (ranked_row group_cols rest) picked)\<rparr>)"

text \<open>The removal of the label column (lines 62 to 65).\<close>

definition drop_level_column :: "frame \<Rightarrow> frame" where
  "drop_level_column result =
     (if ''level_2'' \<in> set (cols result) then drop_column ''level_2'' result
      else if ''level_1'' \<in> set (cols result) then drop_column ''level_1'' result
      else result)"

text \<open>
  The exceptions of pandas: no grouping column, or one given twice; a grouping column or
  the metric that is no column of the table, the metric being looked up among the columns
  that are no grouping columns; a metric column that holds a string; a column that has
  the name of the label level already.
\<close>

definition get_top_pages :: "frame \<Rightarrow> string list \<Rightarrow> string \<Rightarrow> int \<Rightarrow> error + frame" where
  "get_top_pages data group_cols metric top_n =
     (if group_cols = [] \<or> \<not> distinct group_cols then Inl ValueError
      else if \<not> set group_cols \<subseteq> set (cols data) then Inl KeyError
      else if metric \<notin> set (filter (\<lambda>c. c \<notin> set group_cols) (cols data)) then Inl KeyError
      else if \<exists>v \<in> set (column data metric). is_str v then Inl TypeError
      else if level_name (length group_cols)
                \<in> set (filter (\<lambda>c. c \<notin> set group_cols) (cols data)) then Inl ValueError
      else Inr (drop_level_column (top_per_group data group_cols metric top_n)))"

section \<open>Summarizer\<close>

subsection \<open>Outer join\<close>

text \<open>
  \<^verbatim>\<open>pd.merge(left, right, on=keys, how='outer', suffixes=(lsuf, rsuf))\<close>. A column that
  is in both tables and is no key gets the suffix of its side. The result has the columns
  of the left table followed by the columns of the right table that are no keys. Its rows
  come key by key, the keys in ascending order: for a key that only one table has, one row
  per row of that table, the cells of the other side missing; for a key that both have,
  one row per pair of a left and a right row. The frames of this model have pairwise
  distinct labels: pandas rejects a label that the suffixes repeat within one side, and
  the model rejects as well a label repeated across the two sides.
\<close>

definition suffixed :: "string list \<Rightarrow> string list \<Rightarrow> string \<Rightarrow> string \<Rightarrow> string" where
  "suffixed keys other suf c = (if c \<notin> set keys \<and> c \<in> set other then c @ suf else c)"

definition left_part :: "string list \<Rightarrow> string list \<Rightarrow> string \<Rightarrow> string list \<Rightarrow> row \<Rightarrow> row" where
  "left_part keys other suf lcols l = map (\<lambda>c. (suffixed keys other suf c, cell_at l c)) lcols"

definition left_missing :: "string list \<Rightarrow> string list \<Rightarrow> string \<Rightarrow> string list \<Rightarrow> row \<Rightarrow> row" where
  "left_missing keys other suf lcols r =
     map (\<lambda>c. (suffixed keys other suf c, if c \<in> set keys then cell_at r c else NaN)) lcols"

definition right_part :: "string list \<Rightarrow> string list \<Rightarrow> string \<Rightarrow> string list \<Rightarrow> row \<Rightarrow> row" where
  "right_part keys other suf rcols r = map (\<lambda>c. (suffixed keys other suf c, cell_at r c)) rcols"

definition right_missing :: "string list \<Rightarrow> string list \<Rightarrow> string \<Rightarrow> string list \<Rightarrow> row" where
  "right_missing keys other suf rcols = map (\<lambda>c. (suffixed keys other suf c, NaN)) rcols"

definition joined_rows :: "frame \<Rightarrow> frame \<Rightarrow> string list \<Rightarrow> string \<Rightarrow> string \<Rightarrow> cell list \<Rightarrow> row list" where
  "joined_rows left right keys lsuf rsuf k =
     (let rcols = filter (\<lambda>c. c \<notin> set keys) (cols right);
          ls = map snd (group_rows keys k (rws left));
          rs = map snd (group_rows keys k (rws right))
      in if rs = [] then
           map (\<lambda>l. left_part keys (cols right) lsuf (cols left) l
                     @ right_missing keys (cols left) rsuf rcols) ls
         else if ls = [] then
           map (\<lambda>r. left_missing keys (cols right) lsuf (cols left) r
                     @ right_part keys (cols left) rsuf rcols r) rs
         else
           concat (map (\<lambda>l. map (\<lambda>r. left_part keys (cols right) lsuf (cols left) l
                                        @ right_part keys (cols left) rsuf rcols r) rs) ls))"

definition join_keys :: "frame \<Rightarrow> frame \<Rightarrow> string list \<Rightarrow> cell list list" where
  "join_keys left right keys =
     sort_key (map cell_key)
       (remdups (map (\<lambda>lr. key_of keys (snd lr)) (rws left)
                 @ map (\<lambda>lr. key_of keys (snd lr)) (rws right)))"

definition merge_outer :: "frame \<Rightarrow> frame \<Rightarrow> string list \<Rightarrow> string \<Rightarrow> string \<Rightarrow> error + frame" where
  "merge_outer left right keys lsuf rsuf =
     (if \<not> set keys \<subseteq> set (cols left) \<or> \<not> set keys \<subseteq> set (cols right) then Inl KeyError
      else
        let rcols = filter (\<lambda>c. c \<notin> set keys) (cols right);
            labels = map (suffixed keys (cols right) lsuf) (cols left)
                     @ map (suffixed keys (cols left) rsuf) rcols
        in if \<not> distinct labels then Inl MergeError
           else Inr \<lparr>cols = labels,
                     rws = relabel (concat (map (joined_rows left right keys lsuf rsuf)
                                                (join_keys left right keys)))\<rparr>)"

subsection \<open>Filling missing values\<close>

text \<open>
  \<^verbatim>\<open>summary.fillna({...})\<close>: in the columns the dictionary names, a missing value is
  replaced by the dictionary's value; a name that is no column of the table is ignored.
\<close>

definition FILL_VALUES :: "(string \<times> cell) list" where
  "FILL_VALUES =
    [(''Session_mom'', Num 0), (''Session_yoy'', Num 0),
     (''sessions_mom_difference'', Num 0), (''sessions_yoy_difference'', Num 0),
     (''Conversions_mom'', Num 0), (''Conversions_yoy'', Num 0),
     (''conversions_mom_difference'', Num 0), (''conversions_yoy_difference'', Num 0),
     (''conversion_rate_mom_percent_difference'', Num 0),
     (''conversion_rate_yoy_percent_difference'', Num 0)]"

definition fill_cell :: "(string \<times> cell) list \<Rightarrow> string \<times> cell \<Rightarrow> string \<times> cell" where
  "fill_cell values p =
     (case map_of values (fst p) of
        Some z \<Rightarrow> (if snd p = NaN then (fst p, z) else p)
      | None \<Rightarrow> p)"

definition fillna :: "(string \<times> cell) list \<Rightarrow> frame \<Rightarrow> frame" where
  "fillna values d = d\<lparr>rws := map (\<lambda>lr. (fst lr, map (fill_cell values) (snd lr))) (rws d)\<rparr>"

subsection \<open>Canonical sort\<close>

text \<open>
  \<^verbatim>\<open>data['program_category'] = pd.Categorical(data['program_category'],
  categories=PROGRAM_ORDER, ordered=True)\<close>: the column is replaced, in the table that was
  passed, by a categorical one; a value that is no category becomes missing.
\<close>

definition categorical :: "string list \<Rightarrow> cell \<Rightarrow> cell" where
  "categorical categories v = (case v of Str s \<Rightarrow> (if s \<in> set categories then Str s else NaN) | _ \<Rightarrow> NaN)"

definition categorical_cell :: "string \<times> cell \<Rightarrow> string \<times> cell" where
  "categorical_cell p =
     (if fst p = ''program_category'' then (fst p, categorical PROGRAM_ORDER (snd p)) else p)"

definition program_categorical :: "frame \<Rightarrow> error + frame" where
  "program_categorical data =
     (if ''program_category'' \<notin> set (cols data) then Inl KeyError
      else Inr (data\<lparr>rws := map (\<lambda>lr. (fst lr, map categorical_cell (snd lr))) (rws data)\<rparr>))"

text \<open>
  \<^verbatim>\<open>data.sort_values(['program_category', 'default_channel'])\<close>: a stable sort, first by
  the position of the category in the enumeration, then by channel, missing values last
  in both.
\<close>

fun index_of :: "'a list \<Rightarrow> 'a \<Rightarrow> nat" where
  "index_of [] y = 0"
| "index_of (x # xs) y = (if x = y then 0 else Suc (index_of xs y))"

definition program_position :: "cell \<Rightarrow> nat" where
  "program_position v = (case v of Str s \<Rightarrow> index_of PROGRAM_ORDER s | _ \<Rightarrow> length PROGRAM_ORDER)"

definition program_channel_key :: "nat \<times> row \<Rightarrow> nat \<times> nat \<times> rat \<times> string" where
  "program_channel_key lr =
     (program_position (cell_at (snd lr) ''program_category''),
      cell_key (cell_at (snd lr) ''default_channel''))"

text \<open>
  \<^verbatim>\<open>.reset_index()\<close>: the old labels become the first column, named \<^verbatim>\<open>index\<close>, or
  \<^verbatim>\<open>level_0\<close> when there is a column \<^verbatim>\<open>index\<close> already; the rows are numbered anew.
\<close>

definition index_name :: "string list \<Rightarrow> string" where
  "index_name cs = (if ''index'' \<in> set cs then ''level_0'' else ''index'')"

definition index_cell :: "string list \<Rightarrow> nat \<times> row \<Rightarrow> row" where
  "index_cell cs lr = (index_name cs, Num (of_nat (fst lr))) # snd lr"

definition reset_index :: "frame \<Rightarrow> error + frame" where
  "reset_index d =
     (if index_name (cols d) \<in> set (cols d) then Inl ValueError
      else Inr \<lparr>cols = index_name (cols d) # cols d,
                rws = relabel (map (index_cell (cols d)) (rws d))\<rparr>)"

definition sort_values_reset :: "frame \<Rightarrow> error + frame" where
  "sort_values_reset data =
     (if ''default_channel'' \<notin> set (cols data) then Inl KeyError
      else reset_index (data\<lparr>rws := sort_key program_channel_key (rws data)\<rparr>))"

text \<open>
  The table that \<^verbatim>\<open>sort_by_program_order\<close> returns. Its effect on the table it is given
  is \<^const>\<open>program_categorical\<close>; the functions on a store below keep track of it.
\<close>

definition sort_by_program_order :: "frame \<Rightarrow> error + frame" where
  "sort_by_program_order data =
     (case program_categorical data of
        Inl e \<Rightarrow> Inl e
      | Inr data' \<Rightarrow> sort_values_reset data')"

subsection \<open>\<^verbatim>\<open>summarize_data\<close>\<close>

definition JOIN_KEYS :: "string list" where
  "JOIN_KEYS = [''program_category'', ''default_channel'', ''Landing_page'']"

definition summarize_data :: "frame \<Rightarrow> frame \<Rightarrow> error + frame" where
  "summarize_data mom_data yoy_data =
     (case merge_outer mom_data yoy_data JOIN_KEYS ''_mom'' ''_yoy'' of
        Inl e \<Rightarrow> Inl e
      | Inr summary \<Rightarrow> sort_by_program_order (fillna FILL_VALUES summary))"

section \<open>Report writer\<close>

subsection \<open>Arithmetic and comparison of cells\<close>

text \<open>
  The values of a row are Python numbers or strings. Arithmetic with a string raises
  \<^verbatim>\<open>TypeError\<close>, a missing value propagates, and a division by zero raises
  \<^verbatim>\<open>ZeroDivisionError\<close>. A comparison with a missing value is false.
\<close>

definition bind :: "error + 'a \<Rightarrow> ('a \<Rightarrow> error + 'b) \<Rightarrow> error + 'b" where
  "bind m f = (case m of Inl e \<Rightarrow> Inl e | Inr x \<Rightarrow> f x)"

definition py_sub :: "cell \<Rightarrow> cell \<Rightarrow> error + cell" where
  "py_sub a b =
     (if is_str a \<or> is_str b then Inl TypeError
      else case (a, b) of (Num x, Num y) \<Rightarrow> Inr (Num (x - y)) | _ \<Rightarrow> Inr NaN)"

definition py_mul :: "cell \<Rightarrow> cell \<Rightarrow> error + cell" where
  "py_mul a b =
     (if is_str a \<or> is_str b then Inl TypeError
      else case (a, b) of (Num x, Num y) \<Rightarrow> Inr (Num (x * y)) | _ \<Rightarrow> Inr NaN)"

definition py_div :: "cell \<Rightarrow> cell \<Rightarrow> error + cell" where
  "py_div a b =
     (if is_str a \<or> is_str b then Inl TypeError
      else if b = Num 0 then Inl ZeroDivisionError
      else case (a, b) of (Num x, Num y) \<Rightarrow> Inr (Num (x / y)) | _ \<Rightarrow> Inr NaN)"

definition py_gt :: "cell \<Rightarrow> rat \<Rightarrow> error + bool" where
  "py_gt a y = (case a of Num x \<Rightarrow> Inr (x > y) | NaN \<Rightarrow> Inr False | Str _ \<Rightarrow> Inl TypeError)"

definition py_ge :: "cell \<Rightarrow> rat \<Rightarrow> error + bool" where
  "py_ge a y = (case a of Num x \<Rightarrow> Inr (x \<ge> y) | NaN \<Rightarrow> Inr False | Str _ \<Rightarrow> Inl TypeError)"

text \<open>Elementwise \<^verbatim>\<open>==\<close> of a column with a value: a missing value equals nothing.\<close>

definition cell_eq :: "cell \<Rightarrow> cell \<Rightarrow> bool" where
  "cell_eq a b = (a \<noteq> NaN \<and> a = b)"

subsection \<open>Formatting\<close>

text \<open>\<^verbatim>\<open>f"{x:.0f}"\<close>: the nearest integer, a tie going to the even one, the sign kept.\<close>

definition round_half_even :: "rat \<Rightarrow> int" where
  "round_half_even q =
     (let f = \<lfloor>q\<rfloor>; d = q - of_int f
      in if d < 1 / 2 then f else if d > 1 / 2 then f + 1 else if even f then f else f + 1)"

definition fmt0 :: "cell \<Rightarrow> error + string" where
  "fmt0 v =
     (case v of
        Num q \<Rightarrow> Inr ((if q < 0 then ''-'' else []) @ str_nat (nat \<bar>round_half_even q\<bar>))
      | NaN \<Rightarrow> Inr ''nan''
      | Str _ \<Rightarrow> Inl ValueError)"

text \<open>\<^verbatim>\<open>f"+{x:.0f}" if x >= 0 else f"{x:.0f}"\<close>\<close>

definition signed :: "cell \<Rightarrow> error + string" where
  "signed x =
     bind (py_ge x 0) (\<lambda>nonneg.
     bind (fmt0 x) (\<lambda>s. Inr ((if nonneg then ''+'' else []) @ s)))"

subsection \<open>One row\<close>

text \<open>\<^verbatim>\<open>row.get(name, default)\<close>\<close>

definition row_get :: "row \<Rightarrow> string \<Rightarrow> cell \<Rightarrow> cell" where
  "row_get r c d = (case map_of r c of Some v \<Rightarrow> v | None \<Rightarrow> d)"

text \<open>
  The percentage change of the conversions (lines 160 to 168 of the source):
  \<^verbatim>\<open>(diff / prev) * 100 if prev != 0 else (100.0 if diff > 0 else 0.0)\<close>
\<close>

definition pct_change :: "cell \<Rightarrow> cell \<Rightarrow> error + cell" where
  "pct_change diff prev =
     (if prev \<noteq> Num 0 then bind (py_div diff prev) (\<lambda>q. py_mul q (Num 100))
      else bind (py_gt diff 0) (\<lambda>pos. Inr (Num (if pos then 100 else 0))))"

text \<open>The local variables of the loop body for one row, in the order they are computed.\<close>

record locals =
  page :: cell
  sessions_mom :: cell
  sessions_mom_diff :: cell
  sessions_yoy_diff :: cell
  conv_mom :: cell
  conv_mom_diff :: cell
  conv_yoy_diff :: cell
  prev_conv_mom :: cell
  prev_conv_yoy :: cell
  conv_pct_change_mom :: cell
  conv_pct_change_yoy :: cell
  sessions_yoy_str :: string
  sessions_mom_str :: string
  conv_yoy_diff_str :: string
  conv_yoy_pct_str :: string
  conv_mom_diff_str :: string
  conv_mom_pct_str :: string
  sessions_text :: string
  conversions_text :: "string option"

definition row_locals :: "row \<Rightarrow> error + locals" where
  "row_locals r =
     (case map_of r ''Landing_page'' of
        None \<Rightarrow> Inl KeyError
      | Some pg \<Rightarrow>
        let s_mom = row_get r ''Session_mom'' (Num 0);
            s_mom_diff = row_get r ''sessions_mom_difference'' (Num 0);
            s_yoy_diff = row_get r ''sessions_yoy_difference'' (Num 0);
            c_mom = row_get r ''Conversions_mom'' (Num 0);
            c_mom_diff = row_get r ''conversions_mom_difference'' (Num 0);
            c_yoy_diff = row_get r ''conversions_yoy_difference'' (Num 0)
        in
        bind (py_sub c_mom c_mom_diff) (\<lambda>p_mom.
        bind (py_sub c_mom c_yoy_diff) (\<lambda>p_yoy.
        bind (pct_change c_mom_diff p_mom) (\<lambda>pct_mom.
        bind (pct_change c_yoy_diff p_yoy) (\<lambda>pct_yoy.
        bind (signed s_yoy_diff) (\<lambda>s_yoy_str.
        bind (signed s_mom_diff) (\<lambda>s_mom_str.
        bind (signed c_yoy_diff) (\<lambda>c_yoy_diff_str.
        bind (signed pct_yoy) (\<lambda>c_yoy_pct_str.
        bind (signed c_mom_diff) (\<lambda>c_mom_diff_str.
        bind (signed pct_mom) (\<lambda>c_mom_pct_str.
        bind (fmt0 s_mom) (\<lambda>s_text.
        bind (py_gt c_mom 0) (\<lambda>has_conv.
        bind (if has_conv then bind (fmt0 c_mom) (\<lambda>t. Inr (Some t)) else Inr None) (\<lambda>c_text.
        Inr \<lparr>page = pg, sessions_mom = s_mom, sessions_mom_diff = s_mom_diff,
             sessions_yoy_diff = s_yoy_diff, conv_mom = c_mom, conv_mom_diff = c_mom_diff,
             conv_yoy_diff = c_yoy_diff, prev_conv_mom = p_mom, prev_conv_yoy = p_yoy,
             conv_pct_change_mom = pct_mom, conv_pct_change_yoy = pct_yoy,
             sessions_yoy_str = s_yoy_str, sessions_mom_str = s_mom_str,
             conv_yoy_diff_str = c_yoy_diff_str, conv_yoy_pct_str = c_yoy_pct_str,
             conv_mom_diff_str = c_mom_diff_str, conv_mom_pct_str = c_mom_pct_str,
             sessions_text = s_text, conversions_text = c_text\<rparr>))))))))))))))"

subsection \<open>The written file\<close>

text \<open>
  The file is the list of what was written to it: a program header with the display name,
  the fixed header \<^verbatim>\<open>Landing Page Report\<close>, a channel header, a bullet, and the empty
  line after a channel and after a program. A bullet is kept with the row it was written
  for and the values computed for it; its text is made of \<^const>\<open>page\<close>,
  \<^const>\<open>sessions_text\<close>, the signed strings and, when there is one,
  \<^const>\<open>conversions_text\<close>.
\<close>

datatype line =
    ProgramHeader string
  | ReportHeader
  | ChannelHeader cell
  | Bullet row locals
  | Blank

definition display_name :: "string \<Rightarrow> string" where
  "display_name program = (case map_of PROGRAM_NAMES program of Some n \<Rightarrow> n | None \<Rightarrow> program)"

text \<open>\<^verbatim>\<open>Series.unique()\<close>: the values in the order of their first appearance.\<close>

fun unique_acc :: "'a list \<Rightarrow> 'a list \<Rightarrow> 'a list" where
  "unique_acc seen [] = []"
| "unique_acc seen (x # xs) =
     (if x \<in> set seen then unique_acc seen xs else x # unique_acc (x # seen) xs)"

definition unique :: "'a list \<Rightarrow> 'a list" where
  "unique xs = unique_acc [] xs"

text \<open>
  The three loops. A loop stops at the first exception; what was written before stays in
  the file.
\<close>

fun write_rows :: "(nat \<times> row) list \<Rightarrow> line list \<times> error option" where
  "write_rows [] = ([], None)"
| "write_rows (lr # rest) =
     (case row_locals (snd lr) of
        Inl e \<Rightarrow> ([], Some e)
      | Inr l \<Rightarrow> (case write_rows rest of (ls, e) \<Rightarrow> (Bullet (snd lr) l # ls, e)))"

text \<open>
  \<^verbatim>\<open>program_data[program_data['default_channel'] == channel].sort_values('Session_mom',
  ascending=False)\<close>
\<close>

definition channel_rows :: "(nat \<times> row) list \<Rightarrow> cell \<Rightarrow> (nat \<times> row) list" where
  "channel_rows program_data channel =
     sort_key (metric_key ''Session_mom'')
       (filter (\<lambda>lr. cell_eq (cell_at (snd lr) ''default_channel'') channel) program_data)"

fun write_channels :: "(nat \<times> row) list \<Rightarrow> cell list \<Rightarrow> line list \<times> error option" where
  "write_channels program_data [] = ([], None)"
| "write_channels program_data (channel # rest) =
     (case write_rows (channel_rows program_data channel) of
        (ls, Some e) \<Rightarrow> (ChannelHeader channel # ls, Some e)
      | (ls, None) \<Rightarrow>
          (case write_channels program_data rest of
             (ls', e) \<Rightarrow> (ChannelHeader channel # ls @ [Blank] @ ls', e)))"

text \<open>\<^verbatim>\<open>data[data['program_category'] == program]\<close>\<close>

definition program_rows :: "frame \<Rightarrow> string \<Rightarrow> (nat \<times> row) list" where
  "program_rows data program =
     filter (\<lambda>lr. cell_eq (cell_at (snd lr) ''program_category'') (Str program)) (rws data)"

fun write_programs :: "frame \<Rightarrow> string list \<Rightarrow> line list \<times> error option" where
  "write_programs data [] = ([], None)"
| "write_programs data (program # rest) =
     (let program_data = program_rows data program
      in if program_data = [] then write_programs data rest
         else
           (case write_channels program_data
                   (unique (map (\<lambda>lr. cell_at (snd lr) ''default_channel'') program_data)) of
              (ls, Some e) \<Rightarrow> (ProgramHeader (display_name program) # ReportHeader # ls, Some e)
            | (ls, None) \<Rightarrow>
                (case write_programs data rest of
                   (ls', e) \<Rightarrow>
                     (ProgramHeader (display_name program) # ReportHeader # ls @ [Blank] @ ls', e))))"

subsection \<open>\<^verbatim>\<open>generate_markdown\<close>\<close>

text \<open>
  \<^verbatim>\<open>data[data['Session_mom'] > 20].copy()\<close>: a new table with the rows whose sessions
  exceed 20; the comparison of a string with 20 raises \<^verbatim>\<open>TypeError\<close>.
\<close>

definition low_traffic_filter :: "frame \<Rightarrow> error + frame" where
  "low_traffic_filter data =
     (if ''Session_mom'' \<notin> set (cols data) then Inl KeyError
      else if \<exists>v \<in> set (column data ''Session_mom''). is_str v then Inl TypeError
      else Inr (data\<lparr>rws := filter (\<lambda>lr. py_gt (cell_at (snd lr) ''Session_mom'') 20 = Inr True)
                                 (rws data)\<rparr>))"

text \<open>
  The result is \<open>Inl e\<close> when an exception is raised before the file is opened, and
  otherwise the lines written with the exception that stopped the writing, if any.
\<close>

definition generate_markdown :: "frame \<Rightarrow> error + line list \<times> error option" where
  "generate_markdown data =
     (case low_traffic_filter data of
        Inl e \<Rightarrow> Inl e
      | Inr filtered \<Rightarrow>
          (case sort_by_program_order filtered of
             Inl e \<Rightarrow> Inl e
           | Inr ordered \<Rightarrow> Inr (write_programs ordered PROGRAM_ORDER)))"

section \<open>The functions on a store\<close>

text \<open>
  Python passes tables by reference and \<^verbatim>\<open>sort_by_program_order\<close> assigns to a column
  of the table it is given. The store holds the tables at their addresses and the files
  at their paths; a function returns its result together with the store it leaves.
\<close>

record state =
  heap :: "frame list"
  files :: "string \<Rightarrow> line list option"

definition alloc :: "frame \<Rightarrow> state \<Rightarrow> nat \<times> state" where
  "alloc d s = (length (heap s), s\<lparr>heap := heap s @ [d]\<rparr>)"

definition sort_by_program_order_st :: "nat \<Rightarrow> state \<Rightarrow> (error + nat) \<times> state" where
  "sort_by_program_order_st data s =
     (case program_categorical (heap s ! data) of
        Inl e \<Rightarrow> (Inl e, s)
      | Inr data' \<Rightarrow>
          let s1 = s\<lparr>heap := (heap s)[data := data']\<rparr>
          in (case sort_values_reset (heap s1 ! data) of
                Inl e \<Rightarrow> (Inl e, s1)
              | Inr result \<Rightarrow> (case alloc result s1 of (a, s2) \<Rightarrow> (Inr a, s2))))"

definition generate_markdown_st :: "nat \<Rightarrow> string \<Rightarrow> state \<Rightarrow> error option \<times> state" where
  "generate_markdown_st data output_file s =
     (case low_traffic_filter (heap s ! data) of
        Inl e \<Rightarrow> (Some e, s)
      | Inr filtered \<Rightarrow>
          (case alloc filtered s of (data1, s1) \<Rightarrow>
             (case sort_by_program_order_st data1 s1 of
                (Inl e, s2) \<Rightarrow> (Some e, s2)
              | (Inr data2, s2) \<Rightarrow>
                  (case write_programs (heap s2 ! data2) PROGRAM_ORDER of
                     (ls, e) \<Rightarrow> (e, s2\<lparr>files := (files s2)(output_file \<mapsto> ls)\<rparr>)))))"

section \<open>Notions used in the statements\<close>



text \<open>
  The row that \<^verbatim>\<open>sort_by_program_order\<close> makes of a row of the table it is given: the
  program made categorical, the old label in front.
\<close>

definition sorted_row :: "string list \<Rightarrow> nat \<times> row \<Rightarrow> row" where
  "sorted_row cs lr = index_cell cs (fst lr, map categorical_cell (snd lr))"

text \<open>
  The row that \<^verbatim>\<open>summarize_data\<close> makes of a row of the outer join: the missing
  values filled, then the row of the canonical sort.
\<close>

definition summary_row :: "string list \<Rightarrow> nat \<times> row \<Rightarrow> row" where
  "summary_row cs lr = sorted_row cs (fst lr, map (fill_cell FILL_VALUES) (snd lr))"

text \<open>
  The order of the canonical sort: the position of the program in the enumeration, a
  missing program after all others, and then the channel.
\<close>

definition canonical_order :: "nat \<times> row \<Rightarrow> nat \<times> row \<Rightarrow> bool" where
  "canonical_order a b =
     (program_position (cell_at (snd a) ''program_category'')
        < program_position (cell_at (snd b) ''program_category'')
      \<or> (program_position (cell_at (snd a) ''program_category'')
           = program_position (cell_at (snd b) ''program_category'')
         \<and> cell_key (cell_at (snd a) ''default_channel'')
             \<le> cell_key (cell_at (snd b) ''default_channel'')))"

text \<open>
  The cells of a row in the order of the columns of its table, and the cells that a row
  of the outer join has under the labels of the left and of the right table. A row of a
  table appears in a row of the join when these agree. The copies of a row are the rows
  of its table with the same cells; its partners are the rows of the other table with the
  same triple of program, channel and landing page.
\<close>

definition row_cells :: "frame \<Rightarrow> row \<Rightarrow> cell list" where
  "row_cells d r = map (cell_at r) (cols d)"

definition left_cells :: "frame \<Rightarrow> frame \<Rightarrow> row \<Rightarrow> cell list" where
  "left_cells left right jr =
     map (\<lambda>c. cell_at jr (suffixed JOIN_KEYS (cols right) ''_mom'' c)) (cols left)"

definition right_cells :: "frame \<Rightarrow> frame \<Rightarrow> row \<Rightarrow> cell list" where
  "right_cells left right jr =
     map (\<lambda>c. cell_at jr (suffixed JOIN_KEYS (cols left) ''_yoy'' c)) (cols right)"

definition copies :: "frame \<Rightarrow> row \<Rightarrow> nat" where
  "copies d r = length (filter (\<lambda>lr. row_cells d (snd lr) = row_cells d r) (rws d))"

definition partners :: "frame \<Rightarrow> row \<Rightarrow> nat" where
  "partners other r = length (group_rows JOIN_KEYS (key_of JOIN_KEYS r) (rws other))"

text \<open>The test of the low-traffic filter on one row.\<close>

definition has_traffic :: "nat \<times> row \<Rightarrow> bool" where
  "has_traffic lr = (py_gt (cell_at (snd lr) ''Session_mom'') 20 = Inr True)"

text \<open>A program has a row that passes the low-traffic filter.\<close>

definition program_has_traffic :: "frame \<Rightarrow> string \<Rightarrow> bool" where
  "program_has_traffic data p =
     (\<exists>lr \<in> set (rws data). has_traffic lr \<and> cell_at (snd lr) ''program_category'' = Str p)"

text \<open>The program headers of a report, in the order they were written.\<close>

fun program_headers :: "line list \<Rightarrow> string list" where
  "program_headers [] = []"
| "program_headers (ProgramHeader n # ls) = n # program_headers ls"
| "program_headers (_ # ls) = program_headers ls"


subsection \<open>A small run\<close>

text \<open>
  One landing page of the program Informatics with 50 sessions in both tables, and one
  page of the program MED that only the year-over-year table has.
\<close>

definition example_mom :: frame where
  "example_mom =
     \<lparr>cols = [''program_category'', ''default_channel'', ''Landing_page'', ''Session'',
              ''sessions_mom_difference'', ''Conversions'', ''conversions_mom_difference''],
      rws = [(0, [(''program_category'', Str ''Informatics''),
                  (''default_channel'', Str ''Organic Search''),
                  (''Landing_page'', Str ''/home''), (''Session'', Num 50),
                  (''sessions_mom_difference'', Num 5), (''Conversions'', Num 10),
                  (''conversions_mom_difference'', Num 2)])]\<rparr>"

definition example_yoy :: frame where
  "example_yoy =
     \<lparr>cols = [''program_category'', ''default_channel'', ''Landing_page'', ''Session'',
              ''sessions_yoy_difference'', ''Conversions'', ''conversions_yoy_difference''],
      rws = [(0, [(''program_category'', Str ''Informatics''),
                  (''default_channel'', Str ''Organic Search''),
                  (''Landing_page'', Str ''/home''), (''Session'', Num 50),
                  (''sessions_yoy_difference'', Num (- 3)), (''Conversions'', Num 10),
                  (''conversions_yoy_difference'', Num (- 1))]),
             (1, [(''program_category'', Str ''MED''),
                  (''default_channel'', Str ''Paid Search''),
                  (''Landing_page'', Str ''/old''), (''Session'', Num 40),
                  (''sessions_yoy_difference'', Num 7), (''Conversions'', Num 0),
                  (''conversions_yoy_difference'', Num 0)])]\<rparr>"

definition example_summary :: frame where
  "example_summary =
     \<lparr>cols = [''index'', ''program_category'', ''default_channel'', ''Landing_page'',
              ''Session_mom'', ''sessions_mom_difference'', ''Conversions_mom'',
              ''conversions_mom_difference'', ''Session_yoy'', ''sessions_yoy_difference'',
              ''Conversions_yoy'', ''conversions_yoy_difference''],
      rws = [(0, [(''index'', Num 0), (''program_category'', Str ''Informatics''),
                  (''default_channel'', Str ''Organic Search''),
                  (''Landing_page'', Str ''/home''), (''Session_mom'', Num 50),
                  (''sessions_mom_difference'', Num 5), (''Conversions_mom'', Num 10),
                  (''conversions_mom_difference'', Num 2), (''Session_yoy'', Num 50),
                  (''sessions_yoy_difference'', Num (- 3)), (''Conversions_yoy'', Num 10),
                  (''conversions_yoy_difference'', Num (- 1))]),
             (1, [(''index'', Num 1), (''program_category'', Str ''MED''),
                  (''default_channel'', Str ''Paid Search''),
                  (''Landing_page'', Str ''/old''), (''Session_mom'', Num 0),
                  (''sessions_mom_difference'', Num 0), (''Conversions_mom'', Num 0),
                  (''conversions_mom_difference'', Num 0), (''Session_yoy'', Num 40),
                  (''sessions_yoy_difference'', Num 7), (''Conversions_yoy'', Num 0),
                  (''conversions_yoy_difference'', Num 0)])]\<rparr>"

definition example_row :: row where
  "example_row =
     [(''level_0'', Num 0), (''index'', Num 0), (''program_category'', Str ''Informatics''),
      (''default_channel'', Str ''Organic Search''), (''Landing_page'', Str ''/home''),
      (''Session_mom'', Num 50), (''sessions_mom_difference'', Num 5),
      (''Conversions_mom'', Num 10), (''conversions_mom_difference'', Num 2),
      (''Session_yoy'', Num 50), (''sessions_yoy_difference'', Num (- 3)),
      (''Conversions_yoy'', Num 10), (''conversions_yoy_difference'', Num (- 1))]"

definition example_locals :: locals where
  "example_locals =
     \<lparr>page = Str ''/home'', sessions_mom = Num 50, sessions_mom_diff = Num 5,
      sessions_yoy_diff = Num (- 3), conv_mom = Num 10, conv_mom_diff = Num 2,
      conv_yoy_diff = Num (- 1), prev_conv_mom = Num 8, prev_conv_yoy = Num 11,
      conv_pct_change_mom = Num 25, conv_pct_change_yoy = Num (- (100 / 11)),
      sessions_yoy_str = ''-3'', sessions_mom_str = ''+5'', conv_yoy_diff_str = ''-1'',
      conv_yoy_pct_str = ''-9'', conv_mom_diff_str = ''+2'', conv_mom_pct_str = ''+25'',
      sessions_text = ''50'', conversions_text = Some ''10''\<rparr>"

definition example_lines :: "line list" where
  "example_lines =
     [ProgramHeader ''Health Care Informatics'', ReportHeader,
      ChannelHeader (Str ''Organic Search''), Bullet example_row example_locals,
      Blank, Blank]"

text \<open>The same table with its rows in the opposite order.\<close>

definition example_summary_rev :: frame where
  "example_summary_rev = example_summary\<lparr>rws := rev (rws example_summary)\<rparr>"

text \<open>A store that holds the table at address 0, and no file.\<close>

definition example_state :: state where
  "example_state = \<lparr>heap = [example_summary], files = Map.empty\<rparr>"

text \<open>The row of the summary for the page that only the year-over-year table has.\<close>

definition example_yoy_only_row :: row where
  "example_yoy_only_row =
     [(''index'', Num 1), (''program_category'', Str ''MED''),
      (''default_channel'', Str ''Paid Search''), (''Landing_page'', Str ''/old''),
      (''Session_mom'', Num 0), (''sessions_mom_difference'', Num 0),
      (''Conversions_mom'', Num 0), (''conversions_mom_difference'', Num 0),
      (''Session_yoy'', Num 40), (''sessions_yoy_difference'', Num 7),
      (''Conversions_yoy'', Num 0), (''conversions_yoy_difference'', Num 0)]"

subsection \<open>A program that is not in the enumeration\<close>

definition unlisted_mom :: frame where
  "unlisted_mom =
     \<lparr>cols = [''program_category'', ''default_channel'', ''Landing_page'', ''Session''],
      rws = [(0, [(''program_category'', Str ''Foo''), (''default_channel'', Str ''Paid Search''),
                  (''Landing_page'', Str ''/foo''), (''Session'', Num 30)]),
             (1, [(''program_category'', Str ''MED''), (''default_channel'', Str ''Paid Search''),
                  (''Landing_page'', Str ''/med''), (''Session'', Num 25)])]\<rparr>"

definition unlisted_yoy :: frame where
  "unlisted_yoy =
     \<lparr>cols = [''program_category'', ''default_channel'', ''Landing_page'', ''Session''],
      rws = [(0, [(''program_category'', Str ''MED''), (''default_channel'', Str ''Paid Search''),
                  (''Landing_page'', Str ''/med''), (''Session'', Num 20)])]\<rparr>"

definition unlisted_join :: frame where
  "unlisted_join =
     \<lparr>cols = [''program_category'', ''default_channel'', ''Landing_page'', ''Session_mom'',
              ''Session_yoy''],
      rws = [(0, [(''program_category'', Str ''Foo''), (''default_channel'', Str ''Paid Search''),
                  (''Landing_page'', Str ''/foo''), (''Session_mom'', Num 30),
                  (''Session_yoy'', NaN)]),
             (1, [(''program_category'', Str ''MED''), (''default_channel'', Str ''Paid Search''),
                  (''Landing_page'', Str ''/med''), (''Session_mom'', Num 25),
                  (''Session_yoy'', Num 20)])]\<rparr>"

definition unlisted_summary :: frame where
  "unlisted_summary =
     \<lparr>cols = [''index'', ''program_category'', ''default_channel'', ''Landing_page'',
              ''Session_mom'', ''Session_yoy''],
      rws = [(0, [(''index'', Num 1), (''program_category'', Str ''MED''),
                  (''default_channel'', Str ''Paid Search''), (''Landing_page'', Str ''/med''),
                  (''Session_mom'', Num 25), (''Session_yoy'', Num 20)]),
             (1, [(''index'', Num 0), (''program_category'', NaN),
                  (''default_channel'', Str ''Paid Search''), (''Landing_page'', Str ''/foo''),
                  (''Session_mom'', Num 30), (''Session_yoy'', Num 0)])]\<rparr>"

subsection \<open>Tables without conversion columns\<close>

definition sessions_only_raw :: frame where
  "sessions_only_raw =
     \<lparr>cols = [''program_category'', ''default_channel'', ''Landing_page'', ''Session''],
      rws = [(0, [(''program_category'', Str ''MED''), (''default_channel'', Str ''Paid Search''),
                  (''Landing_page'', Str ''/med''), (''Session'', Num 25)])]\<rparr>"

definition sessions_only_summary :: frame where
  "sessions_only_summary =
     \<lparr>cols = [''index'', ''program_category'', ''default_channel'', ''Landing_page'',
              ''Session_mom'', ''Session_yoy''],
      rws = [(0, [(''index'', Num 0), (''program_category'', Str ''MED''),
                  (''default_channel'', Str ''Paid Search''), (''Landing_page'', Str ''/med''),
                  (''Session_mom'', Num 25), (''Session_yoy'', Num 25)])]\<rparr>"

subsection \<open>A page with two rows in one table\<close>

definition single_row :: row where
  "single_row =
     [(''program_category'', Str ''MED''), (''default_channel'', Str ''Paid Search''),
      (''Landing_page'', Str ''/a''), (''Session'', Num 5)]"

definition single_mom :: frame where
  "single_mom =
     \<lparr>cols = [''program_category'', ''default_channel'', ''Landing_page'', ''Session''],
      rws = [(0, single_row)]\<rparr>"

definition duplicated_yoy :: frame where
  "duplicated_yoy =
     \<lparr>cols = [''program_category'', ''default_channel'', ''Landing_page'', ''Session''],
      rws = [(0, [(''program_category'', Str ''MED''), (''default_channel'', Str ''Paid Search''),
                  (''Landing_page'', Str ''/a''), (''Session'', Num 7)]),
             (1, [(''program_category'', Str ''MED''), (''default_channel'', Str ''Paid Search''),
                  (''Landing_page'', Str ''/a''), (''Session'', Num 6)])]\<rparr>"

definition duplicated_summary :: frame where
  "duplicated_summary =
     \<lparr>cols = [''index'', ''program_category'', ''default_channel'', ''Landing_page'',
              ''Session_mom'', ''Session_yoy''],
      rws = [(0, [(''index'', Num 0), (''program_category'', Str ''MED''),
                  (''default_channel'', Str ''Paid Search''), (''Landing_page'', Str ''/a''),
                  (''Session_mom'', Num 5), (''Session_yoy'', Num 7)]),
             (1, [(''index'', Num 1), (''program_category'', Str ''MED''),
                  (''default_channel'', Str ''Paid Search''), (''Landing_page'', Str ''/a''),
                  (''Session_mom'', Num 5), (''Session_yoy'', Num 6)])]\<rparr>"

subsection \<open>A missing program, and ties\<close>






section \<open>Lemmas\<close>

lemma bind_eq_Inr: "bind m f = Inr y \<longleftrightarrow> (\<exists>x. m = Inr x \<and> f x = Inr y)"
  by (cases m) (simp_all add: bind_def)











lemma row_locals_Inr:
  assumes "row_locals r = Inr l"
  shows "map_of r ''Landing_page'' = Some (page l)"
    and "sessions_mom l = row_get r ''Session_mom'' (Num 0)"
    and "conv_mom l = row_get r ''Conversions_mom'' (Num 0)"
    and "conv_mom_diff l = row_get r ''conversions_mom_difference'' (Num 0)"
    and "conv_yoy_diff l = row_get r ''conversions_yoy_difference'' (Num 0)"
    and "py_sub (conv_mom l) (conv_mom_diff l) = Inr (prev_conv_mom l)"
    and "py_sub (conv_mom l) (conv_yoy_diff l) = Inr (prev_conv_yoy l)"
    and "pct_change (conv_mom_diff l) (prev_conv_mom l) = Inr (conv_pct_change_mom l)"
    and "pct_change (conv_yoy_diff l) (prev_conv_yoy l) = Inr (conv_pct_change_yoy l)"
  using assms
  by (auto simp: row_locals_def Let_def bind_eq_Inr split: option.splits)

lemma map_of_map_keep:
  assumes "\<And>p. fst (f p) = fst p"
  shows "map_of (map f r) c = map_option (\<lambda>v. snd (f (c, v))) (map_of r c)"
proof (induction r)
  case Nil
  then show ?case by simp
next
  case (Cons p r)
  obtain k v where p: "p = (k, v)" by (cases p)
  obtain w where fw: "f (k, v) = (k, w)"
    using assms [of "(k, v)"] by (cases "f (k, v)") auto
  show ?case using Cons p fw by simp
qed

lemma fst_categorical_cell: "fst (categorical_cell p) = fst p"
  by (simp add: categorical_cell_def)

lemma fst_fill_cell: "fst (fill_cell vs p) = fst p"
  by (simp add: fill_cell_def split: option.splits)

lemma map_of_categorical:
  "map_of (map categorical_cell r) c =
     map_option (\<lambda>v. if c = ''program_category'' then categorical PROGRAM_ORDER v else v) (map_of r c)"
  by (cases "c = ''program_category''")
    (simp_all add: map_of_map_keep [where f = categorical_cell, OF fst_categorical_cell]
      categorical_cell_def)

lemma categorical_NaN: "categorical cs NaN = NaN"
  by (simp add: categorical_def)

lemma cell_at_categorical:
  "cell_at (map categorical_cell r) c =
     (if c = ''program_category'' then categorical PROGRAM_ORDER (cell_at r c) else cell_at r c)"
  by (simp add: cell_at_def map_of_categorical categorical_NaN split: option.splits)

lemma row_get_categorical:
  "c \<noteq> ''program_category'' \<Longrightarrow> row_get (map categorical_cell r) c d = row_get r c d"
  by (simp add: row_get_def map_of_categorical split: option.splits)

lemma index_name_cases: "index_name cs = ''index'' \<or> index_name cs = ''level_0''"
  by (simp add: index_name_def)

lemma cell_at_index_cell:
  "c \<noteq> ''index'' \<Longrightarrow> c \<noteq> ''level_0'' \<Longrightarrow> cell_at (index_cell cs lr) c = cell_at (snd lr) c"
  using index_name_cases [of cs] by (auto simp: cell_at_def index_cell_def)

lemma map_snd_relabel: "map snd (relabel rs) = rs"
  by (simp add: relabel_def)

lemma set_relabel: "snd ` set (relabel rs) = set rs"
  using map_snd_relabel [of rs] by (metis set_map)

lemma write_rows_bullet:
  "write_rows rs = (ls, e) \<Longrightarrow> Bullet r l \<in> set ls \<Longrightarrow> row_locals r = Inr l \<and> r \<in> snd ` set rs"
proof (induction rs arbitrary: ls e)
  case Nil
  then show ?case by simp
next
  case (Cons lr rs)
  then show ?case
    by (fastforce split: sum.splits prod.splits)
qed


lemma write_channels_bullet:
  "write_channels pd chs = (ls, e) \<Longrightarrow> Bullet r l \<in> set ls \<Longrightarrow>
     row_locals r = Inr l \<and> r \<in> snd ` set pd"
proof (induction chs arbitrary: ls e)
  case Nil
  then show ?case by simp
next
  case (Cons ch chs)
  obtain ls1 e1 where w: "write_rows (channel_rows pd ch) = (ls1, e1)"
    by (cases "write_rows (channel_rows pd ch)")
  have sub: "snd ` set (channel_rows pd ch) \<subseteq> snd ` set pd"
    by (auto simp: channel_rows_def)
  show ?case
  proof (cases e1)
    case (Some x)
    with Cons.prems w have "Bullet r l \<in> set ls1" by auto
    with write_rows_bullet [OF w] sub show ?thesis by blast
  next
    case None
    obtain ls2 e2 where w2: "write_channels pd chs = (ls2, e2)"
      by (cases "write_channels pd chs")
    with Cons.prems w None have "Bullet r l \<in> set ls1 \<or> Bullet r l \<in> set ls2" by auto
    then show ?thesis
      using write_rows_bullet [OF w] sub Cons.IH [OF w2] by blast
  qed
qed


lemma write_programs_bullet:
  "write_programs d ps = (ls, e) \<Longrightarrow> Bullet r l \<in> set ls \<Longrightarrow>
     row_locals r = Inr l \<and> (\<exists>p \<in> set ps. r \<in> snd ` set (program_rows d p))"
proof (induction ps arbitrary: ls e)
  case Nil
  then show ?case by simp
next
  case (Cons p ps)
  show ?case
  proof (cases "program_rows d p = []")
    case True
    with Cons.prems have "write_programs d ps = (ls, e)" by simp
    from Cons.IH [OF this Cons.prems(2)] show ?thesis by auto
  next
    case False
    let ?chs = "unique (map (\<lambda>lr. cell_at (snd lr) ''default_channel'') (program_rows d p))"
    obtain ls1 e1 where w: "write_channels (program_rows d p) ?chs = (ls1, e1)"
      by (cases "write_channels (program_rows d p) ?chs")
    show ?thesis
    proof (cases e1)
      case (Some x)
      with Cons.prems w False have "Bullet r l \<in> set ls1" by auto
      with write_channels_bullet [OF w] show ?thesis by auto
    next
      case None
      obtain ls2 e2 where w2: "write_programs d ps = (ls2, e2)"
        by (cases "write_programs d ps")
      with Cons.prems w None False have "Bullet r l \<in> set ls1 \<or> Bullet r l \<in> set ls2" by auto
      then show ?thesis
        using write_channels_bullet [OF w] Cons.IH [OF w2] by auto
    qed
  qed
qed


lemma sort_by_program_order_Inr:
  assumes "sort_by_program_order d = Inr s"
  shows "cols s = index_name (cols d) # cols d"
    and "map snd (rws s) =
           map (index_cell (cols d))
             (sort_key program_channel_key
                (map (\<lambda>lr. (fst lr, map categorical_cell (snd lr))) (rws d)))"
    and "''program_category'' \<in> set (cols d)" and "''default_channel'' \<in> set (cols d)"
  using assms
  by (auto simp: sort_by_program_order_def program_categorical_def sort_values_reset_def
      reset_index_def map_snd_relabel split: if_splits)

lemma sort_by_program_order_rows:
  assumes "sort_by_program_order d = Inr s"
  shows "snd ` set (rws s) = sorted_row (cols d) ` set (rws d)"
proof -
  have "snd ` set (rws s) = set (map snd (rws s))" by simp
  also have "\<dots> = sorted_row (cols d) ` set (rws d)"
    unfolding sort_by_program_order_Inr(2) [OF assms]
    by (auto simp: sorted_row_def image_iff)
  finally show ?thesis .
qed

lemma sort_by_program_order_mset:
  assumes "sort_by_program_order d = Inr s"
  shows "mset (map snd (rws s)) = mset (map (sorted_row (cols d)) (rws d))"
proof -
  have "mset (map snd (rws s)) =
      image_mset (index_cell (cols d))
        (mset (sort_key program_channel_key
                (map (\<lambda>lr. (fst lr, map categorical_cell (snd lr))) (rws d))))"
    unfolding sort_by_program_order_Inr(2) [OF assms] by simp
  also have "\<dots> = mset (map (sorted_row (cols d)) (rws d))"
    by (simp add: sorted_row_def [abs_def] multiset.map_comp comp_def)
  finally show ?thesis .
qed

lemma low_traffic_filter_Inr:
  assumes "low_traffic_filter d = Inr f"
  shows "cols f = cols d" and "rws f = filter has_traffic (rws d)"
  using assms by (auto simp: low_traffic_filter_def has_traffic_def [abs_def] split: if_splits)

lemma cell_at_sorted_row:
  "c \<noteq> ''index'' \<Longrightarrow> c \<noteq> ''level_0'' \<Longrightarrow>
   cell_at (sorted_row cs lr) c =
     (if c = ''program_category'' then categorical PROGRAM_ORDER (cell_at (snd lr) c)
      else cell_at (snd lr) c)"
  by (simp add: sorted_row_def cell_at_index_cell cell_at_categorical)

lemma cell_eq_categorical:
  "cell_eq (categorical cs v) (Str p) \<longleftrightarrow> v = Str p \<and> p \<in> set cs"
  by (auto simp: cell_eq_def categorical_def split: cell.splits)

lemma program_rows_sorted:
  assumes "sort_by_program_order d = Inr s"
  shows "snd ` set (program_rows s p) =
           sorted_row (cols d) ` {lr \<in> set (rws d). cell_at (snd lr) ''program_category'' = Str p \<and> p \<in> set PROGRAM_ORDER}"
proof -
  have "snd ` set (program_rows s p) =
      {r \<in> snd ` set (rws s). cell_eq (cell_at r ''program_category'') (Str p)}"
    by (auto simp: program_rows_def image_iff)
  also have "\<dots> = sorted_row (cols d) ` {lr \<in> set (rws d). cell_at (snd lr) ''program_category'' = Str p \<and> p \<in> set PROGRAM_ORDER}"
    unfolding sort_by_program_order_rows [OF assms]
    by (auto simp: cell_at_sorted_row cell_eq_categorical)
  finally show ?thesis .
qed

lemma bullet_origin:
  assumes "generate_markdown data = Inr (ls, e)" and "Bullet r l \<in> set ls"
  shows "row_locals r = Inr l \<and>
         (\<exists>lr \<in> set (rws data). has_traffic lr \<and> r = sorted_row (cols data) lr \<and>
            (\<exists>p \<in> set PROGRAM_ORDER. cell_at (snd lr) ''program_category'' = Str p))"
proof -
  from assms(1) obtain f s where f: "low_traffic_filter data = Inr f"
    and s: "sort_by_program_order f = Inr s"
    and w: "write_programs s PROGRAM_ORDER = (ls, e)"
    by (auto simp: generate_markdown_def split: sum.splits)
  from write_programs_bullet [OF w assms(2)] obtain p where
    l: "row_locals r = Inr l" and p: "p \<in> set PROGRAM_ORDER"
    and r: "r \<in> snd ` set (program_rows s p)" by blast
  from r obtain lr where lr: "lr \<in> set (rws f)" "cell_at (snd lr) ''program_category'' = Str p"
    "r = sorted_row (cols f) lr"
    unfolding program_rows_sorted [OF s] by auto
  from lr(1) have "lr \<in> set (rws data)" "has_traffic lr"
    by (simp_all add: low_traffic_filter_Inr [OF f])
  with l p lr show ?thesis
    by (auto simp: low_traffic_filter_Inr [OF f])
qed


section \<open>The claims on the report writer\<close>

lemma example_report: "generate_markdown example_summary = Inr (example_lines, None)"
  by code_simp

lemma example_bullet: "Bullet example_row example_locals \<in> set example_lines"
  by (simp add: example_lines_def)

lemma has_traffic_Num: "has_traffic lr \<Longrightarrow> \<exists>q>20. cell_at (snd lr) ''Session_mom'' = Num q"
  by (auto simp: has_traffic_def py_gt_def split: cell.splits)

lemma row_get_Num: "cell_at r c = Num q \<Longrightarrow> row_get r c d = Num q"
  by (auto simp: cell_at_def row_get_def split: option.splits)

lemma py_sub_Num: "py_sub (Num a) (Num b) = Inr v \<Longrightarrow> v = Num (a - b)"
  by (auto simp: py_sub_def is_str_def)

lemma py_sub_cases: "py_sub a b = Inr v \<Longrightarrow> v = NaN \<or> (\<exists>q. v = Num q)"
  by (auto simp: py_sub_def is_str_def split: cell.splits if_splits)



text \<open>
  C5: every bullet of the report is written for a row whose month-over-month session
  count is a number above 20, and that row is a row of the given table with the same
  session count; so no row with 20 sessions or fewer appears in the report.
\<close>

theorem low_traffic_rows_not_reported:
  assumes "generate_markdown data = Inr (ls, e)" and "Bullet r l \<in> set ls"
  shows "(\<exists>q>20. cell_at r ''Session_mom'' = Num q \<and> sessions_mom l = Num q) \<and>
         (\<exists>lr \<in> set (rws data). r = sorted_row (cols data) lr \<and>
             cell_at (snd lr) ''Session_mom'' = cell_at r ''Session_mom'')"
proof -
  from bullet_origin [OF assms] obtain lr where l: "row_locals r = Inr l"
    and lr: "lr \<in> set (rws data)" "has_traffic lr" "r = sorted_row (cols data) lr"
    by blast
  have same: "cell_at r ''Session_mom'' = cell_at (snd lr) ''Session_mom''"
    by (simp add: lr(3) cell_at_sorted_row)
  from has_traffic_Num [OF lr(2)] obtain q where q: "q > 20" "cell_at r ''Session_mom'' = Num q"
    using same by auto
  have "sessions_mom l = Num q"
    using row_locals_Inr(2) [OF l] row_get_Num [OF q(2)] by simp
  with q lr same show ?thesis by auto
qed

theorem low_traffic_rows_not_reported_witness:
  "generate_markdown example_summary = Inr (example_lines, None) \<and>
   Bullet example_row example_locals \<in> set example_lines \<and>
   (\<exists>q>20. cell_at example_row ''Session_mom'' = Num q \<and> sessions_mom example_locals = Num q)"
  using low_traffic_rows_not_reported [OF example_report example_bullet]
    example_report example_bullet by simp

text \<open>
  C7: for every bullet, both previous-period baselines are differences from the same
  current value \<^verbatim>\<open>Conversions_mom\<close>: the month-over-month baseline subtracts the
  month-over-month conversion difference, the year-over-year baseline the year-over-year
  conversion difference.
\<close>

theorem previous_period_baselines:
  assumes "generate_markdown data = Inr (ls, e)" and "Bullet r l \<in> set ls"
  shows "conv_mom l = row_get r ''Conversions_mom'' (Num 0) \<and>
         conv_mom_diff l = row_get r ''conversions_mom_difference'' (Num 0) \<and>
         conv_yoy_diff l = row_get r ''conversions_yoy_difference'' (Num 0) \<and>
         py_sub (conv_mom l) (conv_mom_diff l) = Inr (prev_conv_mom l) \<and>
         py_sub (conv_mom l) (conv_yoy_diff l) = Inr (prev_conv_yoy l) \<and>
         (\<forall>c d. conv_mom l = Num c \<longrightarrow> conv_mom_diff l = Num d \<longrightarrow> prev_conv_mom l = Num (c - d)) \<and>
         (\<forall>c d. conv_mom l = Num c \<longrightarrow> conv_yoy_diff l = Num d \<longrightarrow> prev_conv_yoy l = Num (c - d))"
proof -
  from bullet_origin [OF assms] have l: "row_locals r = Inr l" by blast
  note f = row_locals_Inr [OF l]
  show ?thesis
    using f(3,4,5,6,7) by (auto dest: py_sub_Num)
qed

theorem previous_period_baselines_witness:
  "generate_markdown example_summary = Inr (example_lines, None) \<and>
   Bullet example_row example_locals \<in> set example_lines \<and>
   conv_mom example_locals = Num 10 \<and> conv_mom_diff example_locals = Num 2 \<and>
   conv_yoy_diff example_locals = Num (- 1) \<and>
   prev_conv_mom example_locals = Num (10 - 2) \<and> prev_conv_yoy example_locals = Num (10 - (- 1))"
proof -
  have c: "conv_mom example_locals = Num 10" "conv_mom_diff example_locals = Num 2"
    "conv_yoy_diff example_locals = Num (- 1)"
    by (simp_all add: example_locals_def)
  from previous_period_baselines [OF example_report example_bullet] c
  have "prev_conv_mom example_locals = Num (10 - 2)"
    and "prev_conv_yoy example_locals = Num (10 - (- 1))"
    by blast+
  with c example_report example_bullet show ?thesis by blast
qed



lemma program_headers_append:
  "program_headers (xs @ ys) = program_headers xs @ program_headers ys"
  by (induction xs rule: program_headers.induct) simp_all

lemma write_rows_headers: "write_rows rs = (ls, e) \<Longrightarrow> program_headers ls = []"
proof (induction rs arbitrary: ls e)
  case Nil
  then show ?case by simp
next
  case (Cons lr rs)
  then show ?case by (auto split: sum.splits prod.splits)
qed

lemma write_channels_headers: "write_channels pd chs = (ls, e) \<Longrightarrow> program_headers ls = []"
proof (induction chs arbitrary: ls e)
  case Nil
  then show ?case by simp
next
  case (Cons ch chs)
  then show ?case
    by (auto simp: program_headers_append split: prod.splits option.splits
        dest: write_rows_headers)
qed

lemma write_programs_headers:
  assumes "write_programs d ps = (ls, e)"
  shows "(\<exists>k. program_headers ls = take k (map display_name (filter (\<lambda>p. program_rows d p \<noteq> []) ps))) \<and>
         (e = None \<longrightarrow> program_headers ls = map display_name (filter (\<lambda>p. program_rows d p \<noteq> []) ps))"
  using assms
proof (induction ps arbitrary: ls e)
  case Nil
  then show ?case by simp
next
  case (Cons p ps)
  let ?rest = "map display_name (filter (\<lambda>p. program_rows d p \<noteq> []) ps)"
  show ?case
  proof (cases "program_rows d p = []")
    case True
    with Cons.prems have "write_programs d ps = (ls, e)" by simp
    from Cons.IH [OF this] True show ?thesis by simp
  next
    case False
    let ?chs = "unique (map (\<lambda>lr. cell_at (snd lr) ''default_channel'') (program_rows d p))"
    obtain ls1 e1 where w: "write_channels (program_rows d p) ?chs = (ls1, e1)"
      by (cases "write_channels (program_rows d p) ?chs")
    note h1 = write_channels_headers [OF w]
    have flt: "map display_name (filter (\<lambda>p. program_rows d p \<noteq> []) (p # ps)) = display_name p # ?rest"
      using False by simp
    show ?thesis
    proof (cases e1)
      case (Some x)
      with Cons.prems w False
      have ls: "ls = ProgramHeader (display_name p) # ReportHeader # ls1" and e: "e = Some x"
        by auto
      have "program_headers ls = take (Suc 0) (display_name p # ?rest)"
        by (simp add: ls h1)
      then have "\<exists>k. program_headers ls = take k (display_name p # ?rest)" ..
      with e show ?thesis unfolding flt by simp
    next
      case None
      obtain ls2 e2 where w2: "write_programs d ps = (ls2, e2)"
        by (cases "write_programs d ps")
      with Cons.prems w None False
      have ls: "ls = ProgramHeader (display_name p) # ReportHeader # ls1 @ [Blank] @ ls2"
        and e: "e = e2" by auto
      from Cons.IH [OF w2] obtain k where k: "program_headers ls2 = take k ?rest"
        and full: "e2 = None \<longrightarrow> program_headers ls2 = ?rest" by blast
      have hd: "program_headers ls = display_name p # program_headers ls2"
        by (simp add: ls h1 program_headers_append)
      have "program_headers ls = take (Suc k) (display_name p # ?rest)"
        by (simp add: hd k)
      then have "\<exists>k. program_headers ls = take k (display_name p # ?rest)" ..
      moreover have "e = None \<longrightarrow> program_headers ls = display_name p # ?rest"
        using full e hd by simp
      ultimately show ?thesis unfolding flt by simp
    qed
  qed
qed

lemma program_rows_nonempty:
  assumes "low_traffic_filter data = Inr f" and "sort_by_program_order f = Inr s"
    and "p \<in> set PROGRAM_ORDER"
  shows "program_rows s p \<noteq> [] \<longleftrightarrow> program_has_traffic data p"
proof -
  have "program_rows s p \<noteq> [] \<longleftrightarrow> snd ` set (program_rows s p) \<noteq> {}" by auto
  also have "\<dots> \<longleftrightarrow> program_has_traffic data p"
    unfolding program_rows_sorted [OF assms(2)] program_has_traffic_def
    using assms(3) by (force simp: low_traffic_filter_Inr [OF assms(1)])
  finally show ?thesis .
qed

lemma generate_markdown_headers:
  assumes "generate_markdown data = Inr (ls, e)"
  shows "(\<exists>k. program_headers ls = take k (map display_name (filter (program_has_traffic data) PROGRAM_ORDER))) \<and>
         (e = None \<longrightarrow> program_headers ls = map display_name (filter (program_has_traffic data) PROGRAM_ORDER))"
proof -
  from assms obtain f s where f: "low_traffic_filter data = Inr f"
    and s: "sort_by_program_order f = Inr s"
    and w: "write_programs s PROGRAM_ORDER = (ls, e)"
    by (auto simp: generate_markdown_def split: sum.splits)
  have "filter (\<lambda>p. program_rows s p \<noteq> []) PROGRAM_ORDER = filter (program_has_traffic data) PROGRAM_ORDER"
    by (rule filter_cong) (simp_all add: program_rows_nonempty [OF f s])
  with write_programs_headers [OF w] show ?thesis by simp
qed

lemma program_has_traffic_cong:
  "set (rws d') = set (rws d) \<Longrightarrow> program_has_traffic d' = program_has_traffic d"
  by (simp add: program_has_traffic_def fun_eq_iff)

text \<open>
  C4: the program headers of the report are the display names of the programs of the fixed
  enumeration that have a row passing the low-traffic filter, in the order of the
  enumeration (a prefix of them when an exception stops the writing); every bullet is
  written for a row whose program is in the enumeration; and two tables with the same
  rows in any order give the same headers.
\<close>
theorem program_sections_in_fixed_order:
  assumes "generate_markdown data = Inr (ls, e)"
  shows "(\<exists>k. program_headers ls =
              take k (map display_name (filter (program_has_traffic data) PROGRAM_ORDER))) \<and>
         (e = None \<longrightarrow>
            program_headers ls = map display_name (filter (program_has_traffic data) PROGRAM_ORDER)) \<and>
         (\<forall>r l. Bullet r l \<in> set ls \<longrightarrow>
            (\<exists>p \<in> set PROGRAM_ORDER. cell_at r ''program_category'' = Str p)) \<and>
         (\<forall>data' ls'. set (rws data') = set (rws data) \<longrightarrow>
            generate_markdown data' = Inr (ls', None) \<longrightarrow> e = None \<longrightarrow>
            program_headers ls' = program_headers ls)"
proof (intro conjI allI impI)
  show "\<exists>k. program_headers ls =
              take k (map display_name (filter (program_has_traffic data) PROGRAM_ORDER))"
    using generate_markdown_headers [OF assms] by blast
next
  assume "e = None"
  then show "program_headers ls = map display_name (filter (program_has_traffic data) PROGRAM_ORDER)"
    using generate_markdown_headers [OF assms] by blast
next
  fix r l assume b: "Bullet r l \<in> set ls"
  from bullet_origin [OF assms b] obtain lr p where "r = sorted_row (cols data) lr"
    and p: "p \<in> set PROGRAM_ORDER" "cell_at (snd lr) ''program_category'' = Str p"
    by blast
  then have "cell_at r ''program_category'' = Str p"
    by (simp add: cell_at_sorted_row categorical_def)
  with p show "\<exists>p \<in> set PROGRAM_ORDER. cell_at r ''program_category'' = Str p" by blast
next
  fix data' ls'
  assume same: "set (rws data') = set (rws data)"
    and g: "generate_markdown data' = Inr (ls', None)" and e: "e = None"
  show "program_headers ls' = program_headers ls"
    using generate_markdown_headers [OF g] generate_markdown_headers [OF assms] e
      program_has_traffic_cong [OF same] by simp
qed

lemma example_report_rev: "generate_markdown example_summary_rev = Inr (example_lines, None)"
  by code_simp

theorem program_sections_in_fixed_order_witness:
  "generate_markdown example_summary = Inr (example_lines, None) \<and>
   Bullet example_row example_locals \<in> set example_lines \<and>
   set (rws example_summary_rev) = set (rws example_summary) \<and>
   generate_markdown example_summary_rev = Inr (example_lines, None) \<and>
   program_headers example_lines = map display_name (filter (program_has_traffic example_summary) PROGRAM_ORDER) \<and>
   program_headers example_lines = [''Health Care Informatics''] \<and>
   (\<exists>p \<in> set PROGRAM_ORDER. cell_at example_row ''program_category'' = Str p)"
proof -
  have s: "set (rws example_summary_rev) = set (rws example_summary)"
    by (simp add: example_summary_rev_def)
  have h: "program_headers example_lines = [''Health Care Informatics'']"
    by (simp add: example_lines_def)
  from program_sections_in_fixed_order [OF example_report] example_bullet
  show ?thesis using s h example_report example_report_rev example_bullet by blast
qed

section \<open>The claim on the store\<close>

lemma sort_by_program_order_st_frame:
  assumes "a < length (heap s)" and "a \<noteq> data"
  shows "heap (snd (sort_by_program_order_st data s)) ! a = heap s ! a"
  using assms
  by (auto simp: sort_by_program_order_st_def alloc_def Let_def nth_append
      split: sum.splits prod.splits)

lemma sort_by_program_order_st_mutates:
  assumes "data < length (heap s)" and "program_categorical (heap s ! data) = Inr d'"
  shows "heap (snd (sort_by_program_order_st data s)) ! data = d'"
  using assms
  by (auto simp: sort_by_program_order_st_def alloc_def Let_def nth_append
      split: sum.splits prod.splits)

lemma sort_by_program_order_st_value:
  assumes "data < length (heap s)"
  shows "case sort_by_program_order_st data s of
           (Inl e, s') \<Rightarrow> sort_by_program_order (heap s ! data) = Inl e
         | (Inr a, s') \<Rightarrow> sort_by_program_order (heap s ! data) = Inr (heap s' ! a)"
  using assms
  by (auto simp: sort_by_program_order_st_def sort_by_program_order_def alloc_def Let_def
      nth_append split: sum.splits prod.splits)

lemma generate_markdown_st_value:
  assumes "data < length (heap s)"
  shows "case generate_markdown (heap s ! data) of
           Inl e \<Rightarrow> fst (generate_markdown_st data output_file s) = Some e \<and>
                    files (snd (generate_markdown_st data output_file s)) = files s
         | Inr (ls, e) \<Rightarrow> fst (generate_markdown_st data output_file s) = e \<and>
                    files (snd (generate_markdown_st data output_file s)) = (files s)(output_file \<mapsto> ls)"
proof (cases "low_traffic_filter (heap s ! data)")
  case (Inl e)
  then show ?thesis by (simp add: generate_markdown_def generate_markdown_st_def)
next
  case (Inr f)
  let ?s1 = "s\<lparr>heap := heap s @ [f]\<rparr>"
  have a: "alloc f s = (length (heap s), ?s1)" by (simp add: alloc_def)
  have lt: "length (heap s) < length (heap ?s1)" by simp
  have at: "heap ?s1 ! length (heap s) = f" by simp
  obtain res s2 where st: "sort_by_program_order_st (length (heap s)) ?s1 = (res, s2)"
    by (cases "sort_by_program_order_st (length (heap s)) ?s1")
  have fs: "files s2 = files s"
    using st by (auto simp: sort_by_program_order_st_def alloc_def Let_def split: sum.splits)
  from sort_by_program_order_st_value [OF lt] st at
  have v: "case res of Inl e \<Rightarrow> sort_by_program_order f = Inl e
                     | Inr a \<Rightarrow> sort_by_program_order f = Inr (heap s2 ! a)"
    by (cases res) simp_all
  show ?thesis
  proof (cases res)
    case (Inl e)
    with v Inr a st fs show ?thesis
      by (simp add: generate_markdown_def generate_markdown_st_def)
  next
    case r: (Inr b)
    with v Inr a st fs show ?thesis
      by (simp add: generate_markdown_def generate_markdown_st_def split: prod.splits)
  qed
qed

text \<open>
  C10: \<^verbatim>\<open>generate_markdown\<close> leaves the table it is given as it was, and every other
  table that the store held: the tables it changes are the ones it allocates.
\<close>
theorem generate_markdown_leaves_input_unchanged:
  assumes "data < length (heap s)"
  shows "heap (snd (generate_markdown_st data output_file s)) ! data = heap s ! data \<and>
         take (length (heap s)) (heap (snd (generate_markdown_st data output_file s))) = heap s"
proof (cases "low_traffic_filter (heap s ! data)")
  case (Inl e)
  then show ?thesis by (simp add: generate_markdown_st_def)
next
  case (Inr f)
  let ?s1 = "s\<lparr>heap := heap s @ [f]\<rparr>"
  let ?n = "length (heap s)"
  have a: "alloc f s = (?n, ?s1)" by (simp add: alloc_def)
  obtain res s2 where st: "sort_by_program_order_st ?n ?s1 = (res, s2)"
    by (cases "sort_by_program_order_st ?n ?s1")
  have keep: "heap s2 ! i = heap s ! i" if "i < ?n" for i
  proof -
    have "heap (snd (sort_by_program_order_st ?n ?s1)) ! i = heap ?s1 ! i"
      using that by (intro sort_by_program_order_st_frame) simp_all
    with st that show ?thesis by (simp add: nth_append)
  qed
  have len: "?n \<le> length (heap s2)"
    using st by (auto simp: sort_by_program_order_st_def alloc_def Let_def split: sum.splits)
  have heap': "heap (snd (generate_markdown_st data output_file s)) = heap s2"
    using Inr a st by (cases res) (simp_all add: generate_markdown_st_def split: prod.splits)
  have "take ?n (heap s2) = heap s"
    using keep len by (intro nth_equalityI) simp_all
  with keep [OF assms] heap' show ?thesis by simp
qed

theorem generate_markdown_leaves_input_unchanged_witness:
  "(0::nat) < length (heap example_state) \<and>
   heap (snd (generate_markdown_st 0 ''report.md'' example_state)) ! 0 = example_summary \<and>
   length (heap (snd (generate_markdown_st 0 ''report.md'' example_state))) = 3"
proof -
  have h: "(0::nat) < length (heap example_state)" by (simp add: example_state_def)
  have l: "length (heap (snd (generate_markdown_st 0 ''report.md'' example_state))) = 3"
    by code_simp
  from generate_markdown_leaves_input_unchanged [OF h, of "''report.md''"] h l
  show ?thesis by (simp add: example_state_def)
qed

section \<open>The claims on the summarizer\<close>

lemma map_of_map_distinct:
  assumes "distinct (map f cs)" and "c \<in> set cs"
  shows "map_of (map (\<lambda>c. (f c, g c)) cs) (f c) = Some (g c)"
  using assms
proof (induction cs)
  case Nil
  then show ?case by simp
next
  case (Cons a cs)
  then show ?case by (cases "a = c") (auto simp: image_iff)
qed

lemma map_of_map_None:
  "k \<notin> f ` set cs \<Longrightarrow> map_of (map (\<lambda>c. (f c, g c)) cs) k = None"
  by (induction cs) auto

lemma map_of_append_left:
  "map_of xs k = Some v \<Longrightarrow> map_of (xs @ ys) k = Some v"
  by (simp add: map_add_Some_iff)

lemma cell_at_append_left:
  "map_of xs k = Some v \<Longrightarrow> cell_at (xs @ ys) k = v"
  by (simp add: cell_at_def map_of_append_left)

lemma cell_at_append_right:
  "map_of xs k = None \<Longrightarrow> cell_at (xs @ ys) k = cell_at ys k"
  by (simp add: cell_at_def map_add_def split: option.splits)

lemma suffixed_key: "c \<in> set keys \<Longrightarrow> suffixed keys other suf c = c"
  by (simp add: suffixed_def)

lemma summarize_data_Inr:
  assumes "summarize_data mom yoy = Inr s"
  obtains j where "merge_outer mom yoy JOIN_KEYS ''_mom'' ''_yoy'' = Inr j"
    and "sort_by_program_order (fillna FILL_VALUES j) = Inr s"
  using assms by (auto simp: summarize_data_def split: sum.splits)

lemma merge_outer_Inr:
  assumes "merge_outer left right keys lsuf rsuf = Inr j"
  shows "set keys \<subseteq> set (cols left)" and "set keys \<subseteq> set (cols right)"
    and "cols j = map (suffixed keys (cols right) lsuf) (cols left)
                  @ map (suffixed keys (cols left) rsuf) (filter (\<lambda>c. c \<notin> set keys) (cols right))"
    and "distinct (cols j)"
    and "map snd (rws j) = concat (map (joined_rows left right keys lsuf rsuf) (join_keys left right keys))"
  using assms
  by (auto simp: merge_outer_def Let_def map_snd_relabel split: if_splits)

lemma joined_rows_labels:
  assumes "r \<in> set (joined_rows left right keys lsuf rsuf k)"
  shows "map fst r = map (suffixed keys (cols right) lsuf) (cols left)
                  @ map (suffixed keys (cols left) rsuf) (filter (\<lambda>c. c \<notin> set keys) (cols right))"
  using assms
  by (auto simp: joined_rows_def Let_def left_part_def right_part_def left_missing_def
      right_missing_def comp_def split: if_splits)

lemma merge_outer_row_labels:
  assumes "merge_outer left right keys lsuf rsuf = Inr j" and "lr \<in> set (rws j)"
  shows "map fst (snd lr) = cols j"
proof -
  from assms(2) have "snd lr \<in> set (map snd (rws j))" by auto
  then obtain k where "snd lr \<in> set (joined_rows left right keys lsuf rsuf k)"
    unfolding merge_outer_Inr(5) [OF assms(1)] by auto
  from joined_rows_labels [OF this] show ?thesis
    by (simp add: merge_outer_Inr(3) [OF assms(1)])
qed

lemma map_of_labels:
  "map fst r = cs \<Longrightarrow> c \<in> set cs \<Longrightarrow> \<exists>v. map_of r c = Some v"
  by (metis domD dom_map_of_conv_image_fst list.set_map)

lemma summarize_data_rows:
  assumes "merge_outer mom yoy JOIN_KEYS ''_mom'' ''_yoy'' = Inr j"
    and "sort_by_program_order (fillna FILL_VALUES j) = Inr s"
  shows "cols s = index_name (cols j) # cols j"
    and "mset (map snd (rws s)) = mset (map (summary_row (cols j)) (rws j))"
    and "snd ` set (rws s) = summary_row (cols j) ` set (rws j)"
    and "length (rws s) = length (rws j)"
proof -
  have c: "cols (fillna FILL_VALUES j) = cols j" by (simp add: fillna_def)
  have r: "rws (fillna FILL_VALUES j) = map (\<lambda>lr. (fst lr, map (fill_cell FILL_VALUES) (snd lr))) (rws j)"
    by (simp add: fillna_def)
  show "cols s = index_name (cols j) # cols j"
    using sort_by_program_order_Inr(1) [OF assms(2)] c by simp
  show m: "mset (map snd (rws s)) = mset (map (summary_row (cols j)) (rws j))"
    using sort_by_program_order_mset [OF assms(2)]
    by (simp add: c r summary_row_def [abs_def] comp_def)
  show "snd ` set (rws s) = summary_row (cols j) ` set (rws j)"
    using sort_by_program_order_rows [OF assms(2)]
    by (simp add: c r summary_row_def [abs_def] image_image)
  from m have "size (mset (map snd (rws s))) = size (mset (map (summary_row (cols j)) (rws j)))"
    by simp
  then show "length (rws s) = length (rws j)" by simp
qed

lemma map_of_fill:
  "map_of (map (fill_cell vs) r) c =
     map_option (\<lambda>v. case map_of vs c of Some z \<Rightarrow> (if v = NaN then z else v) | None \<Rightarrow> v)
       (map_of r c)"
  by (cases "map_of vs c"; cases "map_of r c")
    (simp_all add: map_of_map_keep [where f = "fill_cell vs", OF fst_fill_cell] fill_cell_def)

lemma cell_at_fill_other:
  "map_of vs c = None \<Longrightarrow> cell_at (map (fill_cell vs) r) c = cell_at r c"
  by (simp add: cell_at_def map_of_fill split: option.splits)

lemma cell_at_fill_present:
  "map_of vs c = Some z \<Longrightarrow> map_of r c = Some v \<Longrightarrow>
   cell_at (map (fill_cell vs) r) c = (if v = NaN then z else v)"
  by (simp add: cell_at_def map_of_fill)

lemma fill_values_keys:
  "map_of FILL_VALUES ''program_category'' = None"
  "map_of FILL_VALUES ''default_channel'' = None"
  "map_of FILL_VALUES ''Landing_page'' = None"
  "map_of FILL_VALUES ''index'' = None"
  "map_of FILL_VALUES ''level_0'' = None"
  by (simp_all add: FILL_VALUES_def)

lemma fill_values_zero:
  "f \<in> fst ` set FILL_VALUES \<Longrightarrow> map_of FILL_VALUES f = Some (Num 0)"
  by (auto simp: FILL_VALUES_def)

lemma fill_values_names:
  assumes "f \<in> fst ` set FILL_VALUES"
  shows "f \<noteq> ''index''" and "f \<noteq> ''level_0''" and "f \<noteq> ''program_category''"
  using assms fill_values_zero fill_values_keys by fastforce+

lemma cell_at_summary_row_program:
  "cell_at (summary_row cs lr) ''program_category'' =
     categorical PROGRAM_ORDER (cell_at (snd lr) ''program_category'')"
  by (simp add: summary_row_def cell_at_sorted_row cell_at_fill_other fill_values_keys)


lemma map_of_summary_row_fill:
  assumes "f \<in> fst ` set FILL_VALUES" and "map_of (snd lr) f = Some v"
  shows "map_of (summary_row cs lr) f = Some (if v = NaN then Num 0 else v)"
proof -
  have "map_of (summary_row cs lr) f = map_of (map categorical_cell (map (fill_cell FILL_VALUES) (snd lr))) f"
    using fill_values_names [OF assms(1)] index_name_cases [of cs]
    by (auto simp: summary_row_def sorted_row_def index_cell_def)
  also have "\<dots> = Some (if v = NaN then Num 0 else v)"
    using fill_values_names(3) [OF assms(1)] fill_values_zero [OF assms(1)] assms(2)
    by (simp add: map_of_categorical map_of_fill del: map_map)
  finally show ?thesis .
qed

lemma categorical_cases:
  "categorical cs v = NaN \<or> (\<exists>p \<in> set cs. categorical cs v = Str p \<and> v = Str p)"
  by (auto simp: categorical_def split: cell.splits)

lemma sort_by_program_order_sorted:
  assumes "sort_by_program_order d = Inr s"
  shows "sorted (map program_channel_key (rws s))"
proof -
  let ?X = "map (\<lambda>lr. (fst lr, map categorical_cell (snd lr))) (rws d)"
  have key: "program_channel_key (n, index_cell (cols d) x) = program_channel_key x" for n x
    by (simp add: program_channel_key_def cell_at_index_cell)
  have "map program_channel_key (rws s) = map (\<lambda>r. program_channel_key (0, r)) (map snd (rws s))"
    by (simp add: program_channel_key_def)
  also have "\<dots> = map program_channel_key (sort_key program_channel_key ?X)"
    unfolding sort_by_program_order_Inr(2) [OF assms] by (simp add: key)
  finally show ?thesis by simp
qed

lemma sorted_canonical:
  assumes "sorted (map program_channel_key rs)"
  shows "sorted_wrt canonical_order rs"
proof -
  from assms have "sorted_wrt (\<lambda>a b. program_channel_key a \<le> program_channel_key b) rs"
    by (simp add: sorted_map)
  then show ?thesis
  proof (rule sorted_wrt_mono_rel [rotated])
    fix a b assume "program_channel_key a \<le> program_channel_key b"
    then show "canonical_order a b"
      by (auto simp: program_channel_key_def canonical_order_def less_eq_prod_def)
  qed
qed

text \<open>
  C3, as stated, fails: a row whose program is not in the enumeration is not dropped by
  the canonical sort. The table below has a row of the program \<^verbatim>\<open>Foo\<close>; the summary
  has as many rows as the table, and the row of \<^verbatim>\<open>/foo\<close> is its last row, its
  program missing.
\<close>
theorem unlisted_program_is_kept:
  "''Foo'' \<notin> set PROGRAM_ORDER \<and>
   cell_at (snd (rws unlisted_mom ! 0)) ''program_category'' = Str ''Foo'' \<and>
   summarize_data unlisted_mom unlisted_yoy = Inr unlisted_summary \<and>
   length (rws unlisted_summary) = length (rws unlisted_mom) \<and>
   cell_at (snd (rws unlisted_summary ! 1)) ''program_category'' = NaN \<and>
   cell_at (snd (rws unlisted_summary ! 1)) ''Landing_page'' = Str ''/foo''"
proof -
  have "summarize_data unlisted_mom unlisted_yoy = Inr unlisted_summary"
    by code_simp
  moreover have "''Foo'' \<notin> set PROGRAM_ORDER"
    by (simp add: PROGRAM_ORDER_def)
  ultimately show ?thesis
    by (simp add: unlisted_summary_def unlisted_mom_def cell_at_def)
qed

text \<open>
  C3, amended: the summary has exactly the rows of the outer join, each with its missing
  values filled and its program made categorical, so that a program outside the
  enumeration becomes a missing value and the row is kept; the rows are in canonical
  order, by the position of the program in the enumeration, rows without program last,
  and then by channel.
\<close>
theorem summary_in_canonical_order:
  assumes "summarize_data mom yoy = Inr s"
  shows "\<exists>j. merge_outer mom yoy JOIN_KEYS ''_mom'' ''_yoy'' = Inr j \<and>
           mset (map snd (rws s)) = mset (map (summary_row (cols j)) (rws j)) \<and>
           length (rws s) = length (rws j) \<and>
           (\<forall>jr. cell_at (summary_row (cols j) jr) ''program_category'' =
                   categorical PROGRAM_ORDER (cell_at (snd jr) ''program_category'')) \<and>
           (\<forall>lr \<in> set (rws s). cell_at (snd lr) ''program_category'' = NaN \<or>
                   (\<exists>p \<in> set PROGRAM_ORDER. cell_at (snd lr) ''program_category'' = Str p)) \<and>
           sorted_wrt canonical_order (rws s)"
proof -
  from assms obtain j where j: "merge_outer mom yoy JOIN_KEYS ''_mom'' ''_yoy'' = Inr j"
    and s: "sort_by_program_order (fillna FILL_VALUES j) = Inr s"
    by (rule summarize_data_Inr)
  note rows = summarize_data_rows [OF j s]
  have prog: "cell_at (snd lr) ''program_category'' = NaN \<or>
      (\<exists>p \<in> set PROGRAM_ORDER. cell_at (snd lr) ''program_category'' = Str p)"
    if "lr \<in> set (rws s)" for lr
  proof -
    from that have "snd lr \<in> summary_row (cols j) ` set (rws j)"
      unfolding rows(3) [symmetric] by simp
    then obtain jr where "snd lr = summary_row (cols j) jr" by auto
    then show ?thesis
      using categorical_cases [of PROGRAM_ORDER "cell_at (snd jr) ''program_category''"]
      by (auto simp: cell_at_summary_row_program)
  qed
  have "sorted_wrt canonical_order (rws s)"
    by (rule sorted_canonical) (rule sort_by_program_order_sorted [OF s])
  with j rows(2,4) prog show ?thesis
    by (auto simp: cell_at_summary_row_program)
qed

theorem summary_in_canonical_order_witness:
  "summarize_data unlisted_mom unlisted_yoy = Inr unlisted_summary \<and>
   merge_outer unlisted_mom unlisted_yoy JOIN_KEYS ''_mom'' ''_yoy'' = Inr unlisted_join \<and>
   length (rws unlisted_summary) = length (rws unlisted_join) \<and>
   sorted_wrt canonical_order (rws unlisted_summary)"
proof -
  have s: "summarize_data unlisted_mom unlisted_yoy = Inr unlisted_summary"
    by code_simp
  have j: "merge_outer unlisted_mom unlisted_yoy JOIN_KEYS ''_mom'' ''_yoy'' = Inr unlisted_join"
    by code_simp
  from summary_in_canonical_order [OF s] j s show ?thesis by auto
qed

lemma example_summarized: "summarize_data example_mom example_yoy = Inr example_summary"
  by code_simp

text \<open>
  C2, as stated, fails: a designated field that is a column of neither ranked table is
  not a column of the summary. The ranked table below has the three key columns and the
  sessions only, and the summary of it with itself has no field \<^verbatim>\<open>Conversions_mom\<close>.
\<close>
theorem absent_field_is_not_created:
  "get_top_pages sessions_only_raw [''program_category'', ''default_channel''] ''Session'' 3
     = Inr sessions_only_raw \<and>
   summarize_data sessions_only_raw sessions_only_raw = Inr sessions_only_summary \<and>
   ''Conversions_mom'' \<in> fst ` set FILL_VALUES \<and>
   ''Conversions_mom'' \<notin> set (cols sessions_only_summary) \<and>
   map_of (snd (rws sessions_only_summary ! 0)) ''Conversions_mom'' = None"
proof -
  have "get_top_pages sessions_only_raw [''program_category'', ''default_channel''] ''Session'' 3
     = Inr sessions_only_raw"
    by code_simp
  moreover have "summarize_data sessions_only_raw sessions_only_raw = Inr sessions_only_summary"
    by code_simp
  ultimately show ?thesis
    by (simp add: FILL_VALUES_def sessions_only_summary_def)
qed

text \<open>
  C2, amended: every designated field that is a column of the summary has a value in
  every row, and the value is not missing: it is the value of the outer join, or zero
  where the outer join had none.
\<close>
theorem designated_fields_filled:
  assumes "summarize_data mom yoy = Inr s" and "f \<in> fst ` set FILL_VALUES"
    and "f \<in> set (cols s)" and "lr \<in> set (rws s)"
  shows "\<exists>j jr v. merge_outer mom yoy JOIN_KEYS ''_mom'' ''_yoy'' = Inr j \<and>
           jr \<in> set (rws j) \<and> snd lr = summary_row (cols j) jr \<and>
           map_of (snd jr) f = Some v \<and>
           map_of (snd lr) f = Some (if v = NaN then Num 0 else v) \<and>
           cell_at (snd lr) f \<noteq> NaN"
proof -
  from assms(1) obtain j where j: "merge_outer mom yoy JOIN_KEYS ''_mom'' ''_yoy'' = Inr j"
    and s: "sort_by_program_order (fillna FILL_VALUES j) = Inr s"
    by (rule summarize_data_Inr)
  note rows = summarize_data_rows [OF j s]
  from assms(4) have "snd lr \<in> summary_row (cols j) ` set (rws j)"
    unfolding rows(3) [symmetric] by simp
  then obtain jr where jr: "jr \<in> set (rws j)" "snd lr = summary_row (cols j) jr" by auto
  have "f \<noteq> index_name (cols j)"
    using fill_values_names(1,2) [OF assms(2)] index_name_cases [of "cols j"] by auto
  with assms(3) have "f \<in> set (cols j)" by (simp add: rows(1))
  then obtain v where v: "map_of (snd jr) f = Some v"
    using map_of_labels [OF merge_outer_row_labels [OF j jr(1)]] by blast
  have m: "map_of (snd lr) f = Some (if v = NaN then Num 0 else v)"
    unfolding jr(2) by (rule map_of_summary_row_fill [OF assms(2) v])
  then have n: "cell_at (snd lr) f \<noteq> NaN" by (simp add: cell_at_def)
  show ?thesis
    using j jr v m n by (intro exI [of _ j] exI [of _ jr] exI [of _ v]) simp
qed

theorem designated_fields_filled_witness:
  "summarize_data example_mom example_yoy = Inr example_summary \<and>
   ''Session_mom'' \<in> fst ` set FILL_VALUES \<and>
   ''Session_mom'' \<in> set (cols example_summary) \<and>
   (1, example_yoy_only_row) \<in> set (rws example_summary) \<and>
   cell_at example_yoy_only_row ''Session_mom'' \<noteq> NaN"
proof -
  have f: "''Session_mom'' \<in> fst ` set FILL_VALUES" by (simp add: FILL_VALUES_def)
  have c: "''Session_mom'' \<in> set (cols example_summary)" by (simp add: example_summary_def)
  have r: "(1, example_yoy_only_row) \<in> set (rws example_summary)"
    by (simp add: example_summary_def example_yoy_only_row_def)
  have "cell_at (snd (1::nat, example_yoy_only_row)) ''Session_mom'' \<noteq> NaN"
    using designated_fields_filled [OF example_summarized f c r] by (elim exE conjE)
  then have n: "cell_at example_yoy_only_row ''Session_mom'' \<noteq> NaN" by simp
  show ?thesis
    by (intro conjI) (rule example_summarized, rule f, rule c, rule r, rule n)
qed


lemma left_part_cell:
  assumes "distinct (map (suffixed keys other suf) lcols)" and "c \<in> set lcols"
  shows "map_of (left_part keys other suf lcols l) (suffixed keys other suf c) = Some (cell_at l c)"
  unfolding left_part_def using assms by (rule map_of_map_distinct)

lemma left_missing_cell:
  assumes "distinct (map (suffixed keys other suf) lcols)" and "c \<in> set lcols"
  shows "map_of (left_missing keys other suf lcols r) (suffixed keys other suf c)
           = Some (if c \<in> set keys then cell_at r c else NaN)"
  unfolding left_missing_def using assms by (rule map_of_map_distinct)

lemma right_part_cell:
  assumes "distinct (map (suffixed keys other suf) rcols)" and "c \<in> set rcols"
  shows "map_of (right_part keys other suf rcols r) (suffixed keys other suf c) = Some (cell_at r c)"
  unfolding right_part_def using assms by (rule map_of_map_distinct)

lemma right_missing_cell:
  assumes "distinct (map (suffixed keys other suf) rcols)" and "c \<in> set rcols"
  shows "map_of (right_missing keys other suf rcols) (suffixed keys other suf c) = Some NaN"
  unfolding right_missing_def using assms by (rule map_of_map_distinct)

lemma left_part_key:
  assumes "distinct (map (suffixed keys other suf) lcols)" and "set keys \<subseteq> set lcols"
  shows "key_of keys (left_part keys other suf lcols l @ ys) = key_of keys l"
proof -
  have "cell_at (left_part keys other suf lcols l @ ys) c = cell_at l c" if "c \<in> set keys" for c
    using left_part_cell [OF assms(1), of c l] that assms(2)
    by (auto simp: suffixed_key intro: cell_at_append_left)
  then show ?thesis by (simp add: key_of_def)
qed

lemma left_missing_key:
  assumes "distinct (map (suffixed keys other suf) lcols)" and "set keys \<subseteq> set lcols"
  shows "key_of keys (left_missing keys other suf lcols r @ ys) = key_of keys r"
proof -
  have "cell_at (left_missing keys other suf lcols r @ ys) c = cell_at r c" if "c \<in> set keys" for c
    using left_missing_cell [OF assms(1), of c r] that assms(2)
    by (auto simp: suffixed_key intro: cell_at_append_left)
  then show ?thesis by (simp add: key_of_def)
qed

lemma group_rows_key: "lr \<in> set (group_rows keys k rs) \<Longrightarrow> key_of keys (snd lr) = k \<and> lr \<in> set rs"
  by (simp add: group_rows_def)

lemma joined_rows_cases:
  assumes "r \<in> set (joined_rows left right keys lsuf rsuf k)"
  shows "(\<exists>l \<in> set (rws left). key_of keys (snd l) = k \<and>
            (\<exists>ys. r = left_part keys (cols right) lsuf (cols left) (snd l) @ ys)) \<or>
         (\<exists>x \<in> set (rws right). key_of keys (snd x) = k \<and>
            (\<exists>ys. r = left_missing keys (cols right) lsuf (cols left) (snd x) @ ys))"
  using assms
  by (auto simp: joined_rows_def Let_def split: if_splits dest!: group_rows_key)

lemma joined_rows_key:
  assumes "distinct (map (suffixed keys (cols right) lsuf) (cols left))"
    and "set keys \<subseteq> set (cols left)"
    and "r \<in> set (joined_rows left right keys lsuf rsuf k)"
  shows "key_of keys r = k"
  using joined_rows_cases [OF assms(3)]
  by (auto simp: left_part_key [OF assms(1,2)] left_missing_key [OF assms(1,2)])

lemma merge_outer_distinct_left:
  assumes "merge_outer left right keys lsuf rsuf = Inr j"
  shows "distinct (map (suffixed keys (cols right) lsuf) (cols left))"
    and "distinct (map (suffixed keys (cols left) rsuf) (filter (\<lambda>c. c \<notin> set keys) (cols right)))"
    and "set (map (suffixed keys (cols right) lsuf) (cols left)) \<inter>
         set (map (suffixed keys (cols left) rsuf) (filter (\<lambda>c. c \<notin> set keys) (cols right))) = {}"
  using merge_outer_Inr(3,4) [OF assms] by simp_all













section \<open>The claim on the outer join\<close>

lemma length_filter_concat:
  "length (filter P (concat xss)) = sum_list (map (\<lambda>xs. length (filter P xs)) xss)"
  by (induction xss) simp_all

lemma sum_list_if_const:
  "sum_list (map (\<lambda>x. if Q x then n else 0) xs) = n * length (filter Q xs)"
  by (induction xs) simp_all

lemma sum_list_const: "sum_list (map (\<lambda>x. n) xs) = n * length xs"
  by (induction xs) simp_all

lemma count_in_groups:
  assumes "distinct ks" and "k0 \<in> set ks"
    and "\<And>k. k \<in> set ks \<Longrightarrow> k \<noteq> k0 \<Longrightarrow> filter P (F k) = []"
  shows "length (filter P (concat (map F ks))) = length (filter P (F k0))"
  using assms
proof (induction ks)
  case Nil
  then show ?case by simp
next
  case (Cons k ks)
  show ?case
  proof (cases "k = k0")
    case True
    with Cons.prems(1) have "k0 \<notin> set ks" by simp
    then have "\<And>k'. k' \<in> set ks \<Longrightarrow> filter P (F k') = []"
      using Cons.prems(3) by auto
    then have "filter P (concat (map F ks)) = []"
      by (induction ks) simp_all
    with True show ?thesis by simp
  next
    case False
    have a: "filter P (F k) = []" using Cons.prems(3) [of k] False by simp
    have b: "k0 \<in> set ks" using Cons.prems(2) False by simp
    have c: "distinct ks" using Cons.prems(1) by simp
    have d: "\<And>k'. k' \<in> set ks \<Longrightarrow> k' \<noteq> k0 \<Longrightarrow> filter P (F k') = []"
      using Cons.prems(3) by simp
    have "length (filter P (concat (map F ks))) = length (filter P (F k0))"
      by (rule Cons.IH [OF c b d])
    with a show ?thesis by simp
  qed
qed

lemma join_keys_distinct: "distinct (join_keys left right keys)"
  by (simp add: join_keys_def)

lemma join_keys_set:
  "set (join_keys left right keys) =
     (\<lambda>lr. key_of keys (snd lr)) ` set (rws left) \<union> (\<lambda>lr. key_of keys (snd lr)) ` set (rws right)"
  by (simp add: join_keys_def)

lemma JOIN_KEYS_label: "c \<in> set JOIN_KEYS \<Longrightarrow> suffixed JOIN_KEYS other suf c = c"
  by (rule suffixed_key)

lemma cells_imp_key:
  assumes "map (\<lambda>c. cell_at a (suffixed keys other suf c)) cs = map (cell_at b) cs"
    and "set keys \<subseteq> set cs"
  shows "key_of keys a = key_of keys b"
proof -
  have "cell_at a c = cell_at b c" if "c \<in> set keys" for c
  proof -
    from that assms(2) have "c \<in> set cs" by auto
    with assms(1) have "cell_at a (suffixed keys other suf c) = cell_at b c"
      by (simp add: map_eq_conv)
    with that show ?thesis by (simp add: suffixed_key)
  qed
  then show ?thesis by (simp add: key_of_def)
qed

lemma row_cells_imp_key:
  assumes "row_cells d a = row_cells d b" and "set keys \<subseteq> set (cols d)"
  shows "key_of keys a = key_of keys b"
proof -
  have "cell_at a c = cell_at b c" if "c \<in> set keys" for c
  proof -
    from that assms(2) have "c \<in> set (cols d)" by auto
    with assms(1) show ?thesis by (simp add: row_cells_def)
  qed
  then show ?thesis by (simp add: key_of_def)
qed

lemma copies_group:
  assumes "set keys \<subseteq> set (cols d)"
  shows "length (filter (\<lambda>x. row_cells d x = row_cells d r)
                  (map snd (group_rows keys (key_of keys r) (rws d)))) = copies d r"
proof -
  have "filter (\<lambda>lr. row_cells d (snd lr) = row_cells d r)
          (filter (\<lambda>lr. key_of keys (snd lr) = key_of keys r) (rws d))
        = filter (\<lambda>lr. row_cells d (snd lr) = row_cells d r) (rws d)"
  proof -
    have h: "key_of keys (snd lr) = key_of keys r" if "row_cells d (snd lr) = row_cells d r" for lr
      using that by (rule row_cells_imp_key [OF _ assms])
    have "filter (\<lambda>lr. row_cells d (snd lr) = row_cells d r)
          (filter (\<lambda>lr. key_of keys (snd lr) = key_of keys r) (rws d))
        = filter (\<lambda>lr. key_of keys (snd lr) = key_of keys r \<and> row_cells d (snd lr) = row_cells d r) (rws d)"
      by (simp only: filter_filter)
    also have "\<dots> = filter (\<lambda>lr. row_cells d (snd lr) = row_cells d r) (rws d)"
      by (rule filter_cong [OF refl]) (use h in blast)
    finally show ?thesis .
  qed
  then show ?thesis
    by (simp add: copies_def group_rows_def filter_map comp_def)
qed

lemma key_of_eq_cell: "key_of keys a = key_of keys b \<Longrightarrow> c \<in> set keys \<Longrightarrow> cell_at a c = cell_at b c"
  by (simp add: key_of_def)

lemma length_filter_map: "length (filter P (map f xs)) = length (filter (\<lambda>x. P (f x)) xs)"
  by (simp add: filter_map comp_def)

lemma length_filter_const:
  assumes "\<And>x. x \<in> set xs \<Longrightarrow> P x = b"
  shows "length (filter P xs) = (if b then length xs else 0)"
proof -
  have "filter P xs = filter (\<lambda>x. b) xs"
    by (rule filter_cong [OF refl]) (simp add: assms)
  then show ?thesis by simp
qed

lemma left_cells_left_part:
  assumes "distinct (map (suffixed JOIN_KEYS (cols yoy) ''_mom'') (cols mom))"
  shows "left_cells mom yoy (left_part JOIN_KEYS (cols yoy) ''_mom'' (cols mom) l @ ys) = row_cells mom l"
  unfolding left_cells_def row_cells_def
  by (rule map_cong [OF refl]) (simp add: cell_at_append_left [OF left_part_cell [OF assms]])

lemma right_cells_append:
  assumes dl: "distinct (map (suffixed JOIN_KEYS (cols yoy) ''_mom'') (cols mom))"
    and dr: "distinct (map (suffixed JOIN_KEYS (cols mom) ''_yoy'')
                         (filter (\<lambda>c. c \<notin> set JOIN_KEYS) (cols yoy)))"
    and dj: "set (map (suffixed JOIN_KEYS (cols yoy) ''_mom'') (cols mom)) \<inter>
             set (map (suffixed JOIN_KEYS (cols mom) ''_yoy'')
                    (filter (\<lambda>c. c \<notin> set JOIN_KEYS) (cols yoy))) = {}"
    and sub: "set JOIN_KEYS \<subseteq> set (cols mom)"
    and X: "X = map (\<lambda>c. (suffixed JOIN_KEYS (cols yoy) ''_mom'' c, g c)) (cols mom)"
    and g: "\<And>c. c \<in> set JOIN_KEYS \<Longrightarrow> g c = cell_at r c"
  shows "right_cells mom yoy
           (X @ right_part JOIN_KEYS (cols mom) ''_yoy''
                  (filter (\<lambda>c. c \<notin> set JOIN_KEYS) (cols yoy)) r) = row_cells yoy r"
  unfolding right_cells_def row_cells_def
proof (rule map_cong [OF refl])
  fix c assume c: "c \<in> set (cols yoy)"
  let ?rp = "right_part JOIN_KEYS (cols mom) ''_yoy'' (filter (\<lambda>c. c \<notin> set JOIN_KEYS) (cols yoy)) r"
  show "cell_at (X @ ?rp) (suffixed JOIN_KEYS (cols mom) ''_yoy'' c) = cell_at r c"
  proof (cases "c \<in> set JOIN_KEYS")
    case True
    with sub have cm: "c \<in> set (cols mom)" by auto
    have "map_of X (suffixed JOIN_KEYS (cols yoy) ''_mom'' c) = Some (g c)"
      unfolding X using dl cm by (rule map_of_map_distinct)
    then have "map_of X c = Some (cell_at r c)"
      using True by (simp add: suffixed_key g)
    then show ?thesis using True by (simp add: suffixed_key cell_at_append_left)
  next
    case False
    with c have cr: "c \<in> set (filter (\<lambda>c. c \<notin> set JOIN_KEYS) (cols yoy))" by simp
    then have "suffixed JOIN_KEYS (cols mom) ''_yoy'' c
        \<in> set (map (suffixed JOIN_KEYS (cols mom) ''_yoy'') (filter (\<lambda>c. c \<notin> set JOIN_KEYS) (cols yoy)))"
      by (simp only: set_map) (rule imageI)
    with dj have "suffixed JOIN_KEYS (cols mom) ''_yoy'' c
        \<notin> suffixed JOIN_KEYS (cols yoy) ''_mom'' ` set (cols mom)"
      by (simp only: set_map) blast
    then have "map_of X (suffixed JOIN_KEYS (cols mom) ''_yoy'' c) = None"
      unfolding X by (rule map_of_map_None)
    then have "cell_at (X @ ?rp) (suffixed JOIN_KEYS (cols mom) ''_yoy'' c)
        = cell_at ?rp (suffixed JOIN_KEYS (cols mom) ''_yoy'' c)"
      by (rule cell_at_append_right)
    also have "\<dots> = cell_at r c"
      using right_part_cell [OF dr cr, of r] by (simp add: cell_at_def)
    finally show ?thesis .
  qed
qed

lemma filter_other_group_left:
  assumes j: "merge_outer mom yoy JOIN_KEYS ''_mom'' ''_yoy'' = Inr j"
    and k: "k \<noteq> key_of JOIN_KEYS l"
  shows "filter (\<lambda>jr. left_cells mom yoy jr = row_cells mom l)
           (joined_rows mom yoy JOIN_KEYS ''_mom'' ''_yoy'' k) = []"
  unfolding filter_empty_conv
proof
  fix jr assume jr: "jr \<in> set (joined_rows mom yoy JOIN_KEYS ''_mom'' ''_yoy'' k)"
  have kk: "key_of JOIN_KEYS jr = k"
    by (rule joined_rows_key [OF merge_outer_distinct_left(1) [OF j] merge_outer_Inr(1) [OF j] jr])
  show "\<not> left_cells mom yoy jr = row_cells mom l"
  proof
    assume "left_cells mom yoy jr = row_cells mom l"
    then have "key_of JOIN_KEYS jr = key_of JOIN_KEYS l"
      unfolding left_cells_def row_cells_def
      by (rule cells_imp_key) (rule merge_outer_Inr(1) [OF j])
    with kk k show False by simp
  qed
qed

lemma filter_other_group_right:
  assumes j: "merge_outer mom yoy JOIN_KEYS ''_mom'' ''_yoy'' = Inr j"
    and k: "k \<noteq> key_of JOIN_KEYS r"
  shows "filter (\<lambda>jr. right_cells mom yoy jr = row_cells yoy r)
           (joined_rows mom yoy JOIN_KEYS ''_mom'' ''_yoy'' k) = []"
  unfolding filter_empty_conv
proof
  fix jr assume jr: "jr \<in> set (joined_rows mom yoy JOIN_KEYS ''_mom'' ''_yoy'' k)"
  have kk: "key_of JOIN_KEYS jr = k"
    by (rule joined_rows_key [OF merge_outer_distinct_left(1) [OF j] merge_outer_Inr(1) [OF j] jr])
  show "\<not> right_cells mom yoy jr = row_cells yoy r"
  proof
    assume "right_cells mom yoy jr = row_cells yoy r"
    then have "key_of JOIN_KEYS jr = key_of JOIN_KEYS r"
      unfolding right_cells_def row_cells_def
      by (rule cells_imp_key) (rule merge_outer_Inr(2) [OF j])
    with kk k show False by simp
  qed
qed

lemma left_count_in_group:
  assumes j: "merge_outer mom yoy JOIN_KEYS ''_mom'' ''_yoy'' = Inr j"
    and l: "l \<in> set (rws mom)"
  shows "length (filter (\<lambda>jr. left_cells mom yoy jr = row_cells mom (snd l))
                   (joined_rows mom yoy JOIN_KEYS ''_mom'' ''_yoy'' (key_of JOIN_KEYS (snd l))))
         = copies mom (snd l) * max 1 (partners yoy (snd l))"
proof -
  let ?k = "key_of JOIN_KEYS (snd l)"
  let ?L = "map snd (group_rows JOIN_KEYS ?k (rws mom))"
  let ?R = "map snd (group_rows JOIN_KEYS ?k (rws yoy))"
  let ?rcols = "filter (\<lambda>c. c \<notin> set JOIN_KEYS) (cols yoy)"
  let ?P = "\<lambda>jr. left_cells mom yoy jr = row_cells mom (snd l)"
  let ?Q = "\<lambda>x. row_cells mom x = row_cells mom (snd l)"
  note dl = merge_outer_distinct_left(1) [OF j]
  have P: "?P (left_part JOIN_KEYS (cols yoy) ''_mom'' (cols mom) x @ ys) = ?Q x" for x ys
    by (simp add: left_cells_left_part [OF dl])
  have cp: "length (filter ?Q ?L) = copies mom (snd l)"
    by (rule copies_group [OF merge_outer_Inr(1) [OF j]])
  have pn: "partners yoy (snd l) = length ?R"
    by (simp add: partners_def)
  from l have "l \<in> set (group_rows JOIN_KEYS ?k (rws mom))"
    by (simp add: group_rows_def)
  then have Lne: "?L \<noteq> []" by auto
  show ?thesis
  proof (cases "?R = []")
    case True
    then have "joined_rows mom yoy JOIN_KEYS ''_mom'' ''_yoy'' ?k
        = map (\<lambda>x. left_part JOIN_KEYS (cols yoy) ''_mom'' (cols mom) x
                     @ right_missing JOIN_KEYS (cols mom) ''_yoy'' ?rcols) ?L"
      by (simp add: joined_rows_def Let_def)
    then have "length (filter ?P (joined_rows mom yoy JOIN_KEYS ''_mom'' ''_yoy'' ?k))
        = length (filter ?Q ?L)"
      by (simp only: length_filter_map P)
    moreover have "max 1 (partners yoy (snd l)) = 1"
      using True by (simp only: pn) simp
    ultimately show ?thesis by (simp only: cp mult_1_right)
  next
    case False
    with Lne have "joined_rows mom yoy JOIN_KEYS ''_mom'' ''_yoy'' ?k
        = concat (map (\<lambda>x. map (\<lambda>y. left_part JOIN_KEYS (cols yoy) ''_mom'' (cols mom) x
                     @ right_part JOIN_KEYS (cols mom) ''_yoy'' ?rcols y) ?R) ?L)"
      by (simp add: joined_rows_def Let_def)
    then have "length (filter ?P (joined_rows mom yoy JOIN_KEYS ''_mom'' ''_yoy'' ?k))
        = sum_list (map (\<lambda>x. length (filter (\<lambda>y. ?Q x) ?R)) ?L)"
      by (simp only: length_filter_concat map_map comp_def length_filter_map P)
    also have "\<dots> = sum_list (map (\<lambda>x. if ?Q x then length ?R else 0) ?L)"
      by (rule arg_cong [where f = sum_list], rule map_cong [OF refl]) simp
    also have "\<dots> = length ?R * length (filter ?Q ?L)"
      by (rule sum_list_if_const)
    finally have cnt: "length (filter ?P (joined_rows mom yoy JOIN_KEYS ''_mom'' ''_yoy'' ?k))
        = length ?R * copies mom (snd l)"
      by (simp only: cp)
    have "max 1 (length ?R) = length ?R"
      using False by (cases "?R") simp_all
    then show ?thesis by (simp only: cnt pn mult.commute)
  qed
qed

lemma right_count_in_group:
  assumes j: "merge_outer mom yoy JOIN_KEYS ''_mom'' ''_yoy'' = Inr j"
    and r: "r \<in> set (rws yoy)"
  shows "length (filter (\<lambda>jr. right_cells mom yoy jr = row_cells yoy (snd r))
                   (joined_rows mom yoy JOIN_KEYS ''_mom'' ''_yoy'' (key_of JOIN_KEYS (snd r))))
         = copies yoy (snd r) * max 1 (partners mom (snd r))"
proof -
  let ?k = "key_of JOIN_KEYS (snd r)"
  let ?L = "map snd (group_rows JOIN_KEYS ?k (rws mom))"
  let ?R = "map snd (group_rows JOIN_KEYS ?k (rws yoy))"
  let ?rcols = "filter (\<lambda>c. c \<notin> set JOIN_KEYS) (cols yoy)"
  let ?P = "\<lambda>jr. right_cells mom yoy jr = row_cells yoy (snd r)"
  let ?Q = "\<lambda>x. row_cells yoy x = row_cells yoy (snd r)"
  note d = merge_outer_distinct_left [OF j]
  note sub = merge_outer_Inr(1) [OF j]
  have Pm: "?P (left_missing JOIN_KEYS (cols yoy) ''_mom'' (cols mom) y
                @ right_part JOIN_KEYS (cols mom) ''_yoy'' ?rcols y) = ?Q y" for y
  proof -
    have "right_cells mom yoy (left_missing JOIN_KEYS (cols yoy) ''_mom'' (cols mom) y
                @ right_part JOIN_KEYS (cols mom) ''_yoy'' ?rcols y) = row_cells yoy y"
    proof (rule right_cells_append [OF d sub])
      show "left_missing JOIN_KEYS (cols yoy) ''_mom'' (cols mom) y
          = map (\<lambda>c. (suffixed JOIN_KEYS (cols yoy) ''_mom'' c,
                       if c \<in> set JOIN_KEYS then cell_at y c else NaN)) (cols mom)"
        by (simp only: left_missing_def)
      show "\<And>c. c \<in> set JOIN_KEYS \<Longrightarrow> (if c \<in> set JOIN_KEYS then cell_at y c else NaN) = cell_at y c"
        by simp
    qed
    then show ?thesis by simp
  qed
  have Pp: "?P (left_part JOIN_KEYS (cols yoy) ''_mom'' (cols mom) x
                @ right_part JOIN_KEYS (cols mom) ''_yoy'' ?rcols y) = ?Q y"
    if "x \<in> set ?L" and "y \<in> set ?R" for x y
  proof -
    from that have "key_of JOIN_KEYS x = key_of JOIN_KEYS y"
      by (auto simp: group_rows_def)
    then have g: "\<And>c. c \<in> set JOIN_KEYS \<Longrightarrow> cell_at x c = cell_at y c"
      by (rule key_of_eq_cell)
    have X: "left_part JOIN_KEYS (cols yoy) ''_mom'' (cols mom) x
        = map (\<lambda>c. (suffixed JOIN_KEYS (cols yoy) ''_mom'' c, cell_at x c)) (cols mom)"
      by (simp only: left_part_def)
    have "right_cells mom yoy (left_part JOIN_KEYS (cols yoy) ''_mom'' (cols mom) x
                @ right_part JOIN_KEYS (cols mom) ''_yoy'' ?rcols y) = row_cells yoy y"
      by (rule right_cells_append [OF d sub X g])
    then show ?thesis by simp
  qed
  have cp: "length (filter ?Q ?R) = copies yoy (snd r)"
    by (rule copies_group [OF merge_outer_Inr(2) [OF j]])
  have pn: "partners mom (snd r) = length ?L"
    by (simp add: partners_def)
  from r have "r \<in> set (group_rows JOIN_KEYS ?k (rws yoy))"
    by (simp add: group_rows_def)
  then have Rne: "?R \<noteq> []" by auto
  show ?thesis
  proof (cases "?L = []")
    case True
    with Rne have "joined_rows mom yoy JOIN_KEYS ''_mom'' ''_yoy'' ?k
        = map (\<lambda>y. left_missing JOIN_KEYS (cols yoy) ''_mom'' (cols mom) y
                     @ right_part JOIN_KEYS (cols mom) ''_yoy'' ?rcols y) ?R"
      by (simp add: joined_rows_def Let_def)
    then have "length (filter ?P (joined_rows mom yoy JOIN_KEYS ''_mom'' ''_yoy'' ?k))
        = length (filter ?Q ?R)"
      by (simp only: length_filter_map Pm)
    moreover have "max 1 (partners mom (snd r)) = 1"
      using True by (simp only: pn) simp
    ultimately show ?thesis by (simp only: cp mult_1_right)
  next
    case False
    with Rne have "joined_rows mom yoy JOIN_KEYS ''_mom'' ''_yoy'' ?k
        = concat (map (\<lambda>x. map (\<lambda>y. left_part JOIN_KEYS (cols yoy) ''_mom'' (cols mom) x
                     @ right_part JOIN_KEYS (cols mom) ''_yoy'' ?rcols y) ?R) ?L)"
      by (simp add: joined_rows_def Let_def)
    then have "length (filter ?P (joined_rows mom yoy JOIN_KEYS ''_mom'' ''_yoy'' ?k))
        = sum_list (map (\<lambda>x. length (filter (\<lambda>y. ?P (left_part JOIN_KEYS (cols yoy) ''_mom'' (cols mom) x
                     @ right_part JOIN_KEYS (cols mom) ''_yoy'' ?rcols y)) ?R)) ?L)"
      by (simp only: length_filter_concat map_map comp_def length_filter_map)
    also have "\<dots> = sum_list (map (\<lambda>x. length (filter ?Q ?R)) ?L)"
    proof (rule arg_cong [where f = sum_list], rule map_cong [OF refl])
      fix x assume x: "x \<in> set ?L"
      show "length (filter (\<lambda>y. ?P (left_part JOIN_KEYS (cols yoy) ''_mom'' (cols mom) x
                     @ right_part JOIN_KEYS (cols mom) ''_yoy'' ?rcols y)) ?R)
            = length (filter ?Q ?R)"
        by (rule arg_cong [where f = length], rule filter_cong [OF refl]) (rule Pp [OF x])
    qed
    also have "\<dots> = length (filter ?Q ?R) * length ?L"
      by (rule sum_list_const)
    finally have cnt: "length (filter ?P (joined_rows mom yoy JOIN_KEYS ''_mom'' ''_yoy'' ?k))
        = copies yoy (snd r) * length ?L"
      by (simp only: cp)
    have "max 1 (length ?L) = length ?L"
      using False by (cases "?L") simp_all
    then show ?thesis by (simp only: cnt pn)
  qed
qed

lemma merge_outer_count:
  assumes j: "merge_outer mom yoy JOIN_KEYS ''_mom'' ''_yoy'' = Inr j"
    and k: "k0 \<in> set (join_keys mom yoy JOIN_KEYS)"
    and o: "\<And>k. k \<noteq> k0 \<Longrightarrow> filter P (joined_rows mom yoy JOIN_KEYS ''_mom'' ''_yoy'' k) = []"
  shows "length (filter (\<lambda>jr. P (snd jr)) (rws j))
         = length (filter P (joined_rows mom yoy JOIN_KEYS ''_mom'' ''_yoy'' k0))"
proof -
  have "length (filter (\<lambda>jr. P (snd jr)) (rws j)) = length (filter P (map snd (rws j)))"
    by (simp only: length_filter_map)
  also have "\<dots> = length (filter P (joined_rows mom yoy JOIN_KEYS ''_mom'' ''_yoy'' k0))"
    unfolding merge_outer_Inr(5) [OF j]
    by (rule count_in_groups [OF join_keys_distinct k]) (rule o)
  finally show ?thesis .
qed

lemma duplicated_summarized: "summarize_data single_mom duplicated_yoy = Inr duplicated_summary"
  by code_simp

text \<open>
  C8, as stated, fails: a row appears once for each row of the other table with the same
  triple. Both tables below are ranked tables; the month-over-month table has one row,
  the year-over-year table has two rows for the same page, and the summary has two rows
  that both carry the month-over-month row.
\<close>
theorem row_repeated_for_each_partner:
  "get_top_pages single_mom [''program_category'', ''default_channel''] ''Session'' 3 = Inr single_mom \<and>
   get_top_pages duplicated_yoy [''program_category'', ''default_channel''] ''Session'' 3
     = Inr duplicated_yoy \<and>
   summarize_data single_mom duplicated_yoy = Inr duplicated_summary \<and>
   length (rws single_mom) = 1 \<and>
   length (rws duplicated_summary) = 2 \<and>
   cell_at (snd (rws duplicated_summary ! 0)) ''Session_mom'' = Num 5 \<and>
   cell_at (snd (rws duplicated_summary ! 1)) ''Session_mom'' = Num 5"
proof -
  have "get_top_pages single_mom [''program_category'', ''default_channel''] ''Session'' 3 = Inr single_mom"
    by code_simp
  moreover have "get_top_pages duplicated_yoy [''program_category'', ''default_channel''] ''Session'' 3
     = Inr duplicated_yoy"
    by code_simp
  moreover note duplicated_summarized
  moreover have "length (rws single_mom) = 1" by (simp add: single_mom_def)
  moreover have "length (rws duplicated_summary) = 2" by (simp add: duplicated_summary_def)
  moreover have "cell_at (snd (rws duplicated_summary ! 0)) ''Session_mom'' = Num 5"
    by (simp add: duplicated_summary_def cell_at_def)
  moreover have "cell_at (snd (rws duplicated_summary ! 1)) ''Session_mom'' = Num 5"
    by (simp add: duplicated_summary_def cell_at_def)
  ultimately show ?thesis by (intro conjI)
qed

text \<open>
  C8, amended: the summary has exactly the rows of the outer join, and in the outer join
  every row of either ranked table appears once for each of its partners in the other
  table, and once when it has none (rows of one table with the same cells are counted
  together). So a row appears exactly once when the other table has at most one row with
  its triple.
\<close>
theorem outer_join_row_counts:
  assumes "summarize_data mom yoy = Inr s"
  shows "\<exists>j. merge_outer mom yoy JOIN_KEYS ''_mom'' ''_yoy'' = Inr j \<and>
           mset (map snd (rws s)) = mset (map (summary_row (cols j)) (rws j)) \<and>
           (\<forall>l \<in> set (rws mom).
              length (filter (\<lambda>jr. left_cells mom yoy (snd jr) = row_cells mom (snd l)) (rws j))
                = copies mom (snd l) * max 1 (partners yoy (snd l))) \<and>
           (\<forall>r \<in> set (rws yoy).
              length (filter (\<lambda>jr. right_cells mom yoy (snd jr) = row_cells yoy (snd r)) (rws j))
                = copies yoy (snd r) * max 1 (partners mom (snd r)))"
proof -
  from assms obtain j where j: "merge_outer mom yoy JOIN_KEYS ''_mom'' ''_yoy'' = Inr j"
    and s: "sort_by_program_order (fillna FILL_VALUES j) = Inr s"
    by (rule summarize_data_Inr)
  have left: "length (filter (\<lambda>jr. left_cells mom yoy (snd jr) = row_cells mom (snd l)) (rws j))
                = copies mom (snd l) * max 1 (partners yoy (snd l))"
    if l: "l \<in> set (rws mom)" for l
  proof -
    have k: "key_of JOIN_KEYS (snd l) \<in> set (join_keys mom yoy JOIN_KEYS)"
      unfolding join_keys_set using l by (intro UnI1 imageI)
    have "length (filter (\<lambda>jr. left_cells mom yoy (snd jr) = row_cells mom (snd l)) (rws j))
        = length (filter (\<lambda>jr. left_cells mom yoy jr = row_cells mom (snd l))
             (joined_rows mom yoy JOIN_KEYS ''_mom'' ''_yoy'' (key_of JOIN_KEYS (snd l))))"
      by (rule merge_outer_count [OF j k]) (rule filter_other_group_left [OF j])
    also have "\<dots> = copies mom (snd l) * max 1 (partners yoy (snd l))"
      by (rule left_count_in_group [OF j l])
    finally show ?thesis .
  qed
  have right: "length (filter (\<lambda>jr. right_cells mom yoy (snd jr) = row_cells yoy (snd r)) (rws j))
                = copies yoy (snd r) * max 1 (partners mom (snd r))"
    if r: "r \<in> set (rws yoy)" for r
  proof -
    have k: "key_of JOIN_KEYS (snd r) \<in> set (join_keys mom yoy JOIN_KEYS)"
      unfolding join_keys_set using r by (intro UnI2 imageI)
    have "length (filter (\<lambda>jr. right_cells mom yoy (snd jr) = row_cells yoy (snd r)) (rws j))
        = length (filter (\<lambda>jr. right_cells mom yoy jr = row_cells yoy (snd r))
             (joined_rows mom yoy JOIN_KEYS ''_mom'' ''_yoy'' (key_of JOIN_KEYS (snd r))))"
      by (rule merge_outer_count [OF j k]) (rule filter_other_group_right [OF j])
    also have "\<dots> = copies yoy (snd r) * max 1 (partners mom (snd r))"
      by (rule right_count_in_group [OF j r])
    finally show ?thesis .
  qed
  show ?thesis
  proof (intro exI [of _ j] conjI ballI)
    show "merge_outer mom yoy JOIN_KEYS ''_mom'' ''_yoy'' = Inr j" by (rule j)
    show "mset (map snd (rws s)) = mset (map (summary_row (cols j)) (rws j))"
      by (rule summarize_data_rows(2) [OF j s])
  qed (rule left, assumption, rule right, assumption)
qed

theorem outer_join_row_counts_witness:
  "summarize_data single_mom duplicated_yoy = Inr duplicated_summary \<and>
   (0, single_row) \<in> set (rws single_mom) \<and>
   copies single_mom single_row = 1 \<and> partners duplicated_yoy single_row = 2 \<and>
   (\<exists>j. merge_outer single_mom duplicated_yoy JOIN_KEYS ''_mom'' ''_yoy'' = Inr j \<and>
        length (filter (\<lambda>jr. left_cells single_mom duplicated_yoy (snd jr)
                              = row_cells single_mom single_row) (rws j)) = 2)"
proof -
  have m: "(0, single_row) \<in> set (rws single_mom)" by (simp add: single_mom_def)
  have c: "copies single_mom single_row = 1" by code_simp
  have p: "partners duplicated_yoy single_row = 2" by code_simp
  from outer_join_row_counts [OF duplicated_summarized] obtain j
    where j: "merge_outer single_mom duplicated_yoy JOIN_KEYS ''_mom'' ''_yoy'' = Inr j"
      and l: "\<forall>l \<in> set (rws single_mom).
              length (filter (\<lambda>jr. left_cells single_mom duplicated_yoy (snd jr)
                                    = row_cells single_mom (snd l)) (rws j))
                = copies single_mom (snd l) * max 1 (partners duplicated_yoy (snd l))"
    by (elim exE conjE)
  from bspec [OF l m] c p
  have "length (filter (\<lambda>jr. left_cells single_mom duplicated_yoy (snd jr)
                              = row_cells single_mom single_row) (rws j)) = 2"
    by simp
  with j have "\<exists>j. merge_outer single_mom duplicated_yoy JOIN_KEYS ''_mom'' ''_yoy'' = Inr j \<and>
        length (filter (\<lambda>jr. left_cells single_mom duplicated_yoy (snd jr)
                              = row_cells single_mom single_row) (rws j)) = 2"
    by (intro exI [of _ j] conjI)
  with duplicated_summarized m c p show ?thesis by (intro conjI)
qed

section \<open>The claim on the ranker\<close>















end
